(* ===== verification/DT_Prelude.thy ===== *)
theory DT_Prelude
  imports Main "HOL-Library.Word" "HOL-Library.Monad_Syntax"
begin

text \<open>
  Shared vocabulary of the development: the machine integer types of the C sources,
  shifts by a variable count, signed division, two's complement views, and the lemmas on words,
  lists and options that several components use.
\<close>

unbundle bit_operations_syntax

type_synonym u8 = "8 word"
type_synonym u16 = "16 word"
type_synonym u32 = "32 word"
type_synonym u64 = "64 word"

text \<open>A C string is the list of its bytes, without the terminating NUL.\<close>

type_synonym cstr = "u8 list"

named_theorems dt_word \<open>word facts moved to natural numbers or integers\<close>

section \<open>Shifts\<close>

text \<open>
  A C shift by a variable count below 64. C leaves larger counts undefined: where a D program can cause
  such a count the model says so (\<open>None\<close>), the callers of the 128-bit shifts pass counts below 128, and no
  result rests on the value given to a larger count here.
\<close>

definition shl64 :: "u64 \<Rightarrow> nat \<Rightarrow> u64" where
  "shl64 a n = push_bit (n mod 64) a"

definition shr64 :: "u64 \<Rightarrow> nat \<Rightarrow> u64" where
  "shr64 a n = drop_bit (n mod 64) a"

definition sar64 :: "u64 \<Rightarrow> nat \<Rightarrow> u64" where
  "sar64 a n = signed_drop_bit (n mod 64) a"

text \<open>
  Signed division truncates towards zero; \<^verbatim>\<open>idiv\<close> traps on a zero divisor and on the one
  quotient that does not fit, which is \<open>None\<close>.
\<close>

definition sdiv64 :: "u64 \<Rightarrow> u64 \<Rightarrow> u64 option" where
  "sdiv64 x y =
     (if y = 0 \<or> (x = 0x8000000000000000 \<and> y = -1) then None
      else Some (word_of_int (sgn (sint x) * sgn (sint y) * (\<bar>sint x\<bar> div \<bar>sint y\<bar>))))"

definition srem64 :: "u64 \<Rightarrow> u64 \<Rightarrow> u64 option" where
  "srem64 x y =
     (if y = 0 \<or> (x = 0x8000000000000000 \<and> y = -1) then None
      else Some (word_of_int (sgn (sint x) * (\<bar>sint x\<bar> mod \<bar>sint y\<bar>))))"

lemma unat_shl64 [dt_word]: "n < 64 \<Longrightarrow> unat (shl64 a n) = unat a * 2 ^ n mod 2 ^ 64"
  by (simp only: shl64_def unsigned_push_bit_eq) (simp add: take_bit_eq_mod push_bit_eq_mult)

lemma unat_shr64 [dt_word]: "n < 64 \<Longrightarrow> unat (shr64 a n) = unat a div 2 ^ n"
  by (simp add: shr64_def unat_drop_bit_eq flip: drop_bit_eq_div)

lemma sint_range64: "- (2 ^ 63) \<le> sint (x :: u64)" "sint (x :: u64) < 2 ^ 63"
  using sint_range_size [of x] by (simp_all add: word_size)

lemma sint_word_of_int64:
  "- (2 ^ 63) \<le> i \<Longrightarrow> i < 2 ^ 63 \<Longrightarrow> sint (word_of_int i :: u64) = i"
  by (simp add: sint_sbintrunc' signed_take_bit_int_eq_self)

lemma word_of_int_sint: "word_of_int (sint x) = (x :: 'a :: len word)"
  by (simp flip: scast_eq)

lemma uint_sint64: "uint (x :: u64) = sint x mod 2 ^ 64"
  by (subst word_of_int_sint [of x, symmetric], subst uint_word_of_int) simp

lemma unat_abs64: "unat (if sint x < 0 then - x else (x :: u64)) = nat \<bar>sint x\<bar>"
proof (cases "sint x < 0")
  case True
  have "- x = word_of_int (- sint x)" by (simp add: word_of_int_sint)
  then have "uint (- x) = (- sint x) mod 2 ^ 64" by (simp only: uint_word_of_int) simp
  then show ?thesis using True sint_range64 [of x] by (simp add: unat_eq_nat_uint)
next
  case False
  then show ?thesis using sint_range64 [of x] by (simp add: unat_eq_nat_uint uint_sint64)
qed

lemma sint_sdiv64:
  assumes "0 < sint y"
  shows "\<exists>q. sdiv64 x y = Some q \<and> sint q = sgn (sint x) * (\<bar>sint x\<bar> div sint y)"
proof -
  have "y \<noteq> 0" "y \<noteq> -1" using assms by auto
  moreover have "- (2 ^ 63) \<le> sgn (sint x) * (\<bar>sint x\<bar> div sint y)" "sgn (sint x) * (\<bar>sint x\<bar> div sint y) < 2 ^ 63"
  proof -
    have "\<bar>sint x\<bar> div sint y \<le> \<bar>sint x\<bar>" "0 \<le> \<bar>sint x\<bar> div sint y"
      using assms zdiv_mono2 [of "\<bar>sint x\<bar>" 1 "sint y"] by (auto simp: pos_imp_zdiv_nonneg_iff)
    then show "- (2 ^ 63) \<le> sgn (sint x) * (\<bar>sint x\<bar> div sint y)" "sgn (sint x) * (\<bar>sint x\<bar> div sint y) < 2 ^ 63"
      using sint_range64 [of x] by (auto simp: sgn_if)
  qed
  ultimately show ?thesis
    using assms
    by (simp add: sdiv64_def sint_word_of_int64 del: of_int_mult)
qed

lemma unat_less_2p64: "unat (x :: u64) < 2 ^ 64"
  using unsigned_less [of x] by simp

lemma carry_iff:
  fixes x y :: u64
  shows "(x + y < x \<or> x + y < y) \<longleftrightarrow> 2 ^ 64 \<le> unat x + unat y"
proof (cases "unat x + unat y < 2 ^ 64")
  case True
  then show ?thesis by (simp add: word_less_nat_alt unat_word_ariths)
next
  case False
  have "unat (x + y) = unat x + unat y - 2 ^ 64"
    using False unat_less_2p64 [of x] unat_less_2p64 [of y]
    by (simp add: unat_word_ariths le_mod_geq)
  then show ?thesis
    using False unat_less_2p64 [of x] unat_less_2p64 [of y]
    by (simp add: word_less_nat_alt) linarith
qed

lemma mod_two_limbs:
  fixes x h :: nat
  assumes "x < 2 ^ 64"
  shows "(x + 2 ^ 64 * h) mod 2 ^ 128 = x + 2 ^ 64 * (h mod 2 ^ 64)"
proof -
  have "(x + 2 ^ 64 * h) mod (2 ^ 64 * 2 ^ 64)
      = 2 ^ 64 * ((x + 2 ^ 64 * h) div 2 ^ 64 mod 2 ^ 64) + (x + 2 ^ 64 * h) mod 2 ^ 64"
    by (rule mod_mult2_eq)
  with assms show ?thesis by simp
qed

lemma unat_or_disjoint:
  fixes x y :: "'a :: len word"
  assumes "x AND y = 0"
  shows "unat (x OR y) = unat x + unat y"
proof -
  have "unat x AND unat y = 0"
    using arg_cong [OF assms, of unat] by (simp add: unsigned_and_eq)
  then have "unat x + unat y = unat x OR unat y"
    by (simp add: disjunctive_add_eq_or)
  then show ?thesis by (simp add: unsigned_or_eq)
qed

section \<open>Options\<close>

lemma bind_SomeE:
  assumes "Option.bind x f = Some y"
  obtains a where "x = Some a" "f a = Some y"
  using assms by (cases x) auto

lemma prod_SomeE:
  assumes "(case x of (a, b) \<Rightarrow> f a b) = Some y"
  obtains a b where "x = (a, b)" "f a b = Some y"
  using assms by (cases x) auto

lemmas do_elims = bind_SomeE prod_SomeE

section \<open>Bit masks\<close>

lemma and_exp_minus_1: "n AND (2 ^ k - 1) = n mod 2 ^ k" for n :: nat
  by (metis mask_eq_exp_minus_1 take_bit_eq_mask take_bit_eq_mod)

text \<open>Testing, setting and clearing flags.\<close>

lemma flag_set: "A AND B = 0 \<Longrightarrow> (f OR A) AND B = f AND (B :: 'a :: len word)"
  by (simp add: bit.conj_disj_distrib2)

lemma flag_clear: "A AND B = 0 \<Longrightarrow> (f AND NOT A) AND B = f AND (B :: 'a :: len word)"
  by (rule bit_word_eqI) (auto simp: bit_simps dest!: arg_cong [where f = "\<lambda>w. bit w _"] bit_eq_iff [THEN iffD1])

lemma flag_set_self: "(f OR A) AND A = (A :: 'a :: len word)"
  by (rule bit_word_eqI) (auto simp: bit_simps)

lemma flag_clear_self: "(f AND NOT A) AND A = (0 :: 'a :: len word)"
  by (rule bit_word_eqI) (auto simp: bit_simps)

lemmas flag_simps = flag_set flag_clear flag_set_self flag_clear_self

end
