(* ===== verification/DT_Arith128.thy ===== *)
theory DT_Arith128
  imports DT_Prelude
begin

text \<open>
  128-bit arithmetic of the kernel side (\<^verbatim>\<open>driver/dtrace.c\<close>, \<^verbatim>\<open>dtrace_add_128\<close>,
  \<^verbatim>\<open>dtrace_shift_128\<close>, \<^verbatim>\<open>dtrace_multiply_128\<close>), which the \<^verbatim>\<open>stddev\<close> aggregation
  uses. A 128-bit value is the array \<^verbatim>\<open>uint64_t a[2]\<close>, low limb first.
\<close>

type_synonym u128 = "u64 \<times> u64"

section \<open>Operations\<close>

definition dtrace_add_128 :: "u128 \<Rightarrow> u128 \<Rightarrow> u128" where
  "dtrace_add_128 addend1 addend2 =
     (let r0 = fst addend1 + fst addend2;
          r1 = snd addend1 + snd addend2
               + (if r0 < fst addend1 \<or> r0 < fst addend2 then 1 else 0)
      in (r0, r1))"

definition dtrace_shift_128 :: "u128 \<Rightarrow> int \<Rightarrow> u128" where
  "dtrace_shift_128 a b =
     (if b = 0 then a
      else if b < 0 then
        (let n = nat (- b) in
         if n \<ge> 64 then (shr64 (snd a) (n - 64), 0)
         else
           (let mask = shl64 1 (64 - n) - 1
            in (shr64 (fst a) n OR shl64 (snd a AND mask) (64 - n), shr64 (snd a) n)))
      else
        (let n = nat b in
         if n \<ge> 64 then (0, shl64 (fst a) (n - 64))
         else
           (let mask = shr64 (fst a) (64 - n)
            in (shl64 (fst a) n, shl64 (snd a) n OR mask))))"

definition DT_MASK_LO :: u64 where
  "DT_MASK_LO = 0x00000000FFFFFFFF"

definition dtrace_multiply_128 :: "u64 \<Rightarrow> u64 \<Rightarrow> u128" where
  "dtrace_multiply_128 factor1 factor2 =
     (let hi1 = shr64 factor1 32; hi2 = shr64 factor2 32;
          lo1 = factor1 AND DT_MASK_LO; lo2 = factor2 AND DT_MASK_LO;
          product = (lo1 * lo2, hi1 * hi2);
          tmp = dtrace_shift_128 (hi1 * lo2, 0) 32;
          product = dtrace_add_128 product tmp;
          tmp = dtrace_shift_128 (hi2 * lo1, 0) 32
      in dtrace_add_128 product tmp)"

section \<open>The number a pair of limbs stands for\<close>

definition val128 :: "u128 \<Rightarrow> nat" where
  "val128 a = unat (fst a) + 2 ^ 64 * unat (snd a)"

definition w128 :: "u128 \<Rightarrow> 128 word" where
  "w128 a = ucast (fst a) OR push_bit 64 (ucast (snd a))"

lemma bit_w128: "bit (w128 (lo, hi)) k \<longleftrightarrow> (if k < 64 then bit lo k else bit hi (k - 64))"
  by (auto simp: w128_def bit_simps dest: bit_imp_le_length)

lemma val128_w128: "val128 a = unat (w128 a)"
proof -
  obtain lo hi where a: "a = (lo, hi)" by (cases a)
  have "ucast lo AND push_bit 64 (ucast hi) = (0 :: 128 word)"
    by (rule bit_eqI) (auto simp: bit_simps dest: bit_imp_le_length)
  then have "unat (w128 a) = unat (ucast lo :: 128 word) + unat (push_bit 64 (ucast hi) :: 128 word)"
    by (simp add: a w128_def unat_or_disjoint)
  moreover have "unat (push_bit 64 (ucast hi) :: 128 word) = 2 ^ 64 * unat hi"
    using unat_less_2p64 [of hi]
    by (simp only: unsigned_push_bit_eq)
      (simp add: take_bit_eq_mod push_bit_eq_mult unsigned_ucast_eq)
  moreover have "unat (ucast lo :: 128 word) = unat lo"
    using unat_less_2p64 [of lo] by (simp add: unsigned_ucast_eq take_bit_eq_mod)
  ultimately show ?thesis by (simp add: a val128_def)
qed

lemma val128_less: "val128 a < 2 ^ 128"
  unfolding val128_w128 using unsigned_less [of "w128 a"] by simp

lemma val128_add: "val128 (dtrace_add_128 a b) = (val128 a + val128 b) mod 2 ^ 128"
proof -
  obtain a0 a1 b0 b1 where ab: "a = (a0, a1)" "b = (b0, b1)" by (cases a, cases b)
  define c :: nat where "c = (if 2 ^ 64 \<le> unat a0 + unat b0 then 1 else 0)"
  have lo: "unat a0 + unat b0 = unat (a0 + b0) + 2 ^ 64 * c"
    using unat_less_2p64 [of a0] unat_less_2p64 [of b0]
    by (simp add: c_def unat_word_ariths le_mod_geq)
  have hi: "unat (a1 + b1 + (if a0 + b0 < a0 \<or> a0 + b0 < b0 then 1 else 0))
      = (unat a1 + unat b1 + c) mod 2 ^ 64"
    by (simp add: carry_iff c_def unat_word_ariths mod_simps)
  have "val128 a + val128 b = unat (a0 + b0) + 2 ^ 64 * (unat a1 + unat b1 + c)"
    using lo by (simp add: ab val128_def algebra_simps)
  then have "(val128 a + val128 b) mod 2 ^ 128
      = unat (a0 + b0) + 2 ^ 64 * ((unat a1 + unat b1 + c) mod 2 ^ 64)"
    by (simp only: mod_two_limbs [OF unat_less_2p64])
  then show ?thesis
    by (simp add: ab val128_def dtrace_add_128_def Let_def hi)
qed

lemma w128_shift_left:
  assumes "0 \<le> b" "b < 128"
  shows "w128 (dtrace_shift_128 a b) = push_bit (nat b) (w128 a)"
proof (rule bit_eqI)
  fix k
  assume "possible_bit TYPE(128 word) k"
  then have k: "k < 128" by simp
  obtain lo hi where a: "a = (lo, hi)" by (cases a)
  obtain n where n: "b = int n" using assms(1) nonneg_int_cases by blast
  show "bit (w128 (dtrace_shift_128 a b)) k = bit (push_bit (nat b) (w128 a)) k"
    using assms k
    by (auto simp: a n dtrace_shift_128_def Let_def bit_w128 bit_simps shl64_def shr64_def
        ac_simps dest: bit_imp_le_length)
qed

lemma w128_shift_right:
  assumes "b < 0" "- 32 \<le> b \<or> b \<le> - 64" "- 128 < b"
  shows "w128 (dtrace_shift_128 a b) = drop_bit (nat (- b)) (w128 a)"
proof (rule bit_eqI)
  fix k
  assume "possible_bit TYPE(128 word) k"
  then have k: "k < 128" by simp
  obtain lo hi where a: "a = (lo, hi)" by (cases a)
  obtain n where n: "- b = int n" using assms(1) nonneg_int_cases [of "- b"] by auto
  then have b: "b = - int n" by simp
  have m: "2 ^ (64 - n) - 1 = (mask (64 - n) :: u64)"
    by (simp add: mask_eq_exp_minus_1)
  have h: "n \<le> 32 \<or> 64 \<le> n" using assms(2) b by linarith
  show "bit (w128 (dtrace_shift_128 a b)) k = bit (drop_bit (nat (- b)) (w128 a)) k"
    using assms(1,3) k h
    by (auto simp: a b dtrace_shift_128_def Let_def bit_w128 bit_simps shl64_def shr64_def m
        ac_simps dest: bit_imp_le_length)
qed

text \<open>A right shift by more than half a limb: bit by bit, what the mask of the code keeps.\<close>

lemma bit_shift_128_right:
  assumes "32 < n" "n < 64" "k < 128"
  shows "bit (w128 (dtrace_shift_128 (lo, hi) (- int n))) k \<longleftrightarrow>
    bit (drop_bit n (w128 (lo, hi))) k \<and> (64 - n \<le> k \<and> k < 64 \<longrightarrow> k + n - 64 < 64 - n)"
proof -
  have m: "2 ^ (64 - n) - 1 = (mask (64 - n) :: u64)" by (simp add: mask_eq_exp_minus_1)
  show ?thesis
    using assms
    by (auto simp: dtrace_shift_128_def Let_def bit_w128 bit_simps shl64_def shr64_def m ac_simps dest: bit_imp_le_length)
qed

lemma shift_128_right_exact:
  assumes "32 < n" "n < 64"
  shows "val128 (dtrace_shift_128 a (- int n)) = val128 a div 2 ^ n \<longleftrightarrow> unat (snd a) mod 2 ^ n < 2 ^ (64 - n)"
proof -
  obtain lo hi where a: "a = (lo, hi)" by (cases a)
  let ?w = "w128 (dtrace_shift_128 a (- int n))" and ?d = "drop_bit n (w128 a)"
  have "val128 a div 2 ^ n = unat ?d" by (simp add: val128_w128 unat_drop_bit_eq flip: drop_bit_eq_div)
  then have "val128 (dtrace_shift_128 a (- int n)) = val128 a div 2 ^ n \<longleftrightarrow> ?w = ?d"
    by (simp add: val128_w128 word_unat_eq_iff)
  also have "\<dots> \<longleftrightarrow> (\<forall>k < 128. bit ?w k = bit ?d k)" by (auto simp: bit_eq_iff)
  also have "\<dots> \<longleftrightarrow> (\<forall>j < n. bit hi j \<longrightarrow> j < 64 - n)"
  proof (rule iffI; intro allI impI)
    fix j
    assume eq: "\<forall>k < 128. bit ?w k = bit ?d k" and j: "j < n" "bit hi j"
    have "bit ?d (64 - n + j)" using j assms by (simp add: a bit_w128 bit_simps)
    then have "bit ?w (64 - n + j)" using eq j(1) assms by simp
    moreover have "64 - n + j < 128" "64 - n + j < 64" "64 - n + j + n - 64 = j" using j(1) assms by linarith+
    ultimately show "j < 64 - n" using bit_shift_128_right [OF assms, of "64 - n + j" lo hi] unfolding a by linarith
  next
    fix k :: nat
    assume hi: "\<forall>j < n. bit hi j \<longrightarrow> j < 64 - n" and k: "k < 128"
    have "k + n - 64 < 64 - n" if "bit ?d k" "64 - n \<le> k" "k < 64"
      using hi [rule_format, of "k + n - 64"] that assms by (auto simp: a bit_w128 bit_simps ac_simps split: if_splits)
    then show "bit ?w k = bit ?d k" using bit_shift_128_right [OF assms k, of lo hi] by (auto simp: a)
  qed
  also have "\<dots> \<longleftrightarrow> take_bit (64 - n) (take_bit n (unat hi)) = take_bit n (unat hi)"
    using assms by (auto simp: bit_eq_iff bit_simps bit_unsigned_iff)
  also have "\<dots> \<longleftrightarrow> unat (snd a) mod 2 ^ n < 2 ^ (64 - n)"
    unfolding take_bit_nat_eq_self_iff by (simp add: a take_bit_eq_mod)
  finally show ?thesis .
qed

lemma val128_shift_left:
  assumes "0 \<le> b" "b < 128"
  shows "val128 (dtrace_shift_128 a b) = val128 a * 2 ^ nat b mod 2 ^ 128"
  by (simp only: val128_w128 w128_shift_left [OF assms] unsigned_push_bit_eq)
    (simp add: take_bit_eq_mod push_bit_eq_mult)

lemma val128_shift_right:
  assumes "b < 0" "- 32 \<le> b \<or> b \<le> - 64" "- 128 < b"
  shows "val128 (dtrace_shift_128 a b) = val128 a div 2 ^ nat (- b)"
  by (simp only: val128_w128 w128_shift_right [OF assms] unat_drop_bit_eq)
    (simp add: drop_bit_eq_div)

lemma unat_lo: "unat (x AND DT_MASK_LO) = unat x mod 2 ^ 32"
proof -
  have "x AND DT_MASK_LO = take_bit 32 x"
    by (simp add: DT_MASK_LO_def take_bit_eq_mask mask_eq_exp_minus_1)
  then show ?thesis by (simp only: unsigned_take_bit_eq) (simp add: take_bit_eq_mod)
qed

lemma unat_mult_half:
  fixes x y :: u64
  assumes "unat x < 2 ^ 32" "unat y < 2 ^ 32"
  shows "unat (x * y) = unat x * unat y"
proof -
  have "unat x * unat y < 2 ^ 32 * 2 ^ 32"
    using assms by (intro mult_strict_mono) auto
  then show ?thesis by (simp add: unat_word_ariths)
qed

lemma val128_multiply: "val128 (dtrace_multiply_128 x y) = unat x * unat y"
proof -
  define h1 h2 l1 l2 where d: "h1 = shr64 x 32" "h2 = shr64 y 32"
    "l1 = x AND DT_MASK_LO" "l2 = y AND DT_MASK_LO"
  have u: "unat h1 = unat x div 2 ^ 32" "unat h2 = unat y div 2 ^ 32"
    "unat l1 = unat x mod 2 ^ 32" "unat l2 = unat y mod 2 ^ 32"
    by (simp_all add: d unat_lo unat_shr64)
  then have small: "unat h1 < 2 ^ 32" "unat h2 < 2 ^ 32" "unat l1 < 2 ^ 32" "unat l2 < 2 ^ 32"
    using unat_less_2p64 [of x] unat_less_2p64 [of y] by (simp_all add: less_mult_imp_div_less)
  note p = unat_mult_half [OF small(3,4)] unat_mult_half [OF small(1,2)]
    unat_mult_half [OF small(1,4)] unat_mult_half [OF small(2,3)]
  have tmp: "val128 (dtrace_shift_128 (z, 0) 32) = unat z * 2 ^ 32" for z
    using unat_less_2p64 [of z] by (simp add: val128_shift_left) (simp add: val128_def)
  have xy: "unat x = unat l1 + 2 ^ 32 * unat h1" "unat y = unat l2 + 2 ^ 32 * unat h2"
    by (simp_all add: u)
  have "val128 (dtrace_multiply_128 x y)
      = (unat l1 * unat l2 + 2 ^ 64 * (unat h1 * unat h2) + unat h1 * unat l2 * 2 ^ 32
         + unat h2 * unat l1 * 2 ^ 32) mod 2 ^ 128"
    unfolding dtrace_multiply_128_def Let_def d [symmetric] val128_add tmp
    by (simp add: val128_def p mod_simps)
  also have "\<dots> = (unat x * unat y) mod 2 ^ 128"
    by (simp add: xy algebra_simps)
  also have "\<dots> = unat x * unat y"
    using mult_strict_mono [OF unat_less_2p64 [of x] unat_less_2p64 [of y]] by simp
  finally show ?thesis .
qed

section \<open>Properties\<close>

text \<open>
  \<^bold>\<open>C33.\<close> Adding two 128-bit values with the carry computed by comparing the low sum with
  the addends is addition modulo \<open>2 ^ 128\<close>.
\<close>

theorem dtrace_add_128_correct:
  "val128 (dtrace_add_128 a b) = (val128 a + val128 b) mod 2 ^ 128"
  by (rule val128_add)

text \<open>
  \<^bold>\<open>C34.\<close> The product of two 64-bit values, assembled from four 32-bit partial products, is
  exact: nothing is lost, for all factors.
\<close>

theorem dtrace_multiply_128_correct: "val128 (dtrace_multiply_128 x y) = unat x * unat y"
  by (rule val128_multiply)

text \<open>
  \<^bold>\<open>C35.\<close> A shift by a positive count multiplies by the power of two modulo \<open>2 ^ 128\<close>; a
  shift by a negative count of magnitude at most 32, or at least 64, divides by it.
\<close>

theorem dtrace_shift_128_correct:
  assumes "- 128 < b" "b < 128" "b < - 32 \<Longrightarrow> b \<le> - 64"
  shows "val128 (dtrace_shift_128 a b)
    = (if 0 \<le> b then val128 a * 2 ^ nat b mod 2 ^ 128 else val128 a div 2 ^ nat (- b))"
  using assms val128_shift_left [of b a] val128_shift_right [of b a] by fastforce

theorem dtrace_shift_128_correct_witness:
  "val128 (dtrace_shift_128 (0x8000000000000001, 3) 65)
     = val128 (0x8000000000000001, 3) * 2 ^ 65 mod 2 ^ 128
   \<and> val128 (dtrace_shift_128 (7, 5) (- 1)) = val128 (7, 5) div 2"
  using dtrace_shift_128_correct [of 65 "(0x8000000000000001, 3)"]
    dtrace_shift_128_correct [of "- 1" "(7, 5)"] by simp

text \<open>
  \<^bold>\<open>C36.\<close> A right shift by 33 to 63 is right for exactly those values whose high limb has only zeros in its
  bits \<open>64 - n\<close> to \<open>n - 1\<close>: the mask selects the low \<open>64 - n\<close> bits of the high limb where the low \<open>n\<close> bits
  move down, so for every such count there are values it loses bits of.
\<close>

theorem dtrace_shift_128_right_loses_bits:
  assumes "32 < n" "n < 64"
  shows "val128 (dtrace_shift_128 a (- int n)) = val128 a div 2 ^ n \<longleftrightarrow> unat (snd a) mod 2 ^ n < 2 ^ (64 - n)"
  using assms by (rule shift_128_right_exact)

theorem dtrace_shift_128_right_loses_bits_witness:
  "val128 (dtrace_shift_128 (0, 2 ^ 30) (- 40)) \<noteq> val128 (0, 2 ^ 30) div 2 ^ 40 \<and>
   val128 (dtrace_shift_128 (0, 2 ^ 20) (- 40)) = val128 (0, 2 ^ 20) div 2 ^ 40"
  using dtrace_shift_128_right_loses_bits [of 40 "(0, 2 ^ 30)"] dtrace_shift_128_right_loses_bits [of 40 "(0, 2 ^ 20)"]
  by simp

end
