(* ===== verification/DT_Aggregators.thy ===== *)
theory DT_Aggregators
  imports DT_Arith128
begin

text \<open>
  The aggregating functions of \<^verbatim>\<open>driver/dtrace.c\<close> (\<^verbatim>\<open>dtrace_aggregate_min\<close> to
  \<^verbatim>\<open>dtrace_aggregate_sum\<close>) and the bucket macros of \<^verbatim>\<open>uts/common/sys/dtrace.h\<close>. An
  aggregation value is the array of 64-bit words behind the \<^verbatim>\<open>uint64_t *\<close> argument;
  \<open>None\<close> is an access outside that array or a failed \<^verbatim>\<open>ASSERT\<close>.
\<close>

type_synonym aggval = "u64 list"

section \<open>Operations\<close>

text \<open>\<^verbatim>\<open>a[i] += v\<close> with a possibly negative index.\<close>

definition agg_add :: "aggval \<Rightarrow> int \<Rightarrow> u64 \<Rightarrow> aggval option" where
  "agg_add a i v =
     (if 0 \<le> i \<and> nat i < length a then Some (a[nat i := a ! nat i + v]) else None)"

definition dtrace_aggregate_min :: "aggval \<Rightarrow> u64 \<Rightarrow> u64 \<Rightarrow> aggval option" where
  "dtrace_aggregate_min oval nval arg =
     (case oval of
        [] \<Rightarrow> None
      | x # xs \<Rightarrow> Some (if sint nval < sint x then nval # xs else x # xs))"

definition dtrace_aggregate_max :: "aggval \<Rightarrow> u64 \<Rightarrow> u64 \<Rightarrow> aggval option" where
  "dtrace_aggregate_max oval nval arg =
     (case oval of
        [] \<Rightarrow> None
      | x # xs \<Rightarrow> Some (if sint nval > sint x then nval # xs else x # xs))"

definition DTRACE_QUANTIZE_NBUCKETS :: nat where
  "DTRACE_QUANTIZE_NBUCKETS = ((8 * 8) - 1) * 2 + 1"

definition DTRACE_QUANTIZE_ZEROBUCKET :: nat where
  "DTRACE_QUANTIZE_ZEROBUCKET = (8 * 8) - 1"

definition DTRACE_QUANTIZE_BUCKETVAL :: "nat \<Rightarrow> int" where
  "DTRACE_QUANTIZE_BUCKETVAL buck =
     (if buck < DTRACE_QUANTIZE_ZEROBUCKET
      then - (2 ^ (DTRACE_QUANTIZE_ZEROBUCKET - 1 - buck))
      else if buck = DTRACE_QUANTIZE_ZEROBUCKET then 0
      else 2 ^ (buck - DTRACE_QUANTIZE_ZEROBUCKET - 1))"

text \<open>The two early-returning loops of \<^verbatim>\<open>dtrace_aggregate_quantize\<close> are searches.\<close>

definition dtrace_aggregate_quantize :: "aggval \<Rightarrow> u64 \<Rightarrow> u64 \<Rightarrow> aggval option" where
  "dtrace_aggregate_quantize quanta nval incr =
     (let zero = DTRACE_QUANTIZE_ZEROBUCKET; val = sint nval in
      if val < 0 then
        (case find (\<lambda>i. val \<le> DTRACE_QUANTIZE_BUCKETVAL i) [0..<zero] of
           Some i \<Rightarrow> agg_add quanta (int i) incr
         | None \<Rightarrow> None)
      else
        (case find (\<lambda>i. val < DTRACE_QUANTIZE_BUCKETVAL i)
                [zero + 1..<DTRACE_QUANTIZE_NBUCKETS] of
           Some i \<Rightarrow> agg_add quanta (int i - 1) incr
         | None \<Rightarrow> agg_add quanta (int DTRACE_QUANTIZE_NBUCKETS - 1) incr))"

definition DTRACE_LQUANTIZE_STEP :: "u64 \<Rightarrow> u16" where
  "DTRACE_LQUANTIZE_STEP x = ucast (drop_bit 48 (x AND push_bit 48 0xFFFF))"

definition DTRACE_LQUANTIZE_LEVELS :: "u64 \<Rightarrow> u16" where
  "DTRACE_LQUANTIZE_LEVELS x = ucast (drop_bit 32 (x AND push_bit 32 0xFFFF))"

definition DTRACE_LQUANTIZE_BASE :: "u64 \<Rightarrow> u32" where
  "DTRACE_LQUANTIZE_BASE x = ucast (x AND 0xFFFFFFFF)"

text \<open>
  \<^verbatim>\<open>base\<close> and \<^verbatim>\<open>val\<close> are \<^verbatim>\<open>int32_t\<close>, and \<^verbatim>\<open>val - base\<close> wraps at that width. The C
  pointer is advanced past the encoded argument, so its index \<open>i\<close> is index \<open>i + 1\<close> of the
  whole value.
\<close>

definition dtrace_aggregate_lquantize :: "aggval \<Rightarrow> u64 \<Rightarrow> u64 \<Rightarrow> aggval option" where
  "dtrace_aggregate_lquantize lquanta nval incr =
     (case lquanta of
        [] \<Rightarrow> None
      | arg # _ \<Rightarrow>
          (let base = DTRACE_LQUANTIZE_BASE arg;
               step = uint (DTRACE_LQUANTIZE_STEP arg);
               levels = uint (DTRACE_LQUANTIZE_LEVELS arg);
               val = ucast nval :: u32
           in if step = 0 \<or> levels = 0 then None
              else if sint val < sint base then agg_add lquanta 1 incr
              else
                (let d = sint (val - base); level = sgn d * (\<bar>d\<bar> div step)
                 in if level < levels then agg_add lquanta (level + 2) incr
                    else agg_add lquanta (levels + 2) incr)))"

definition dtrace_aggregate_avg :: "aggval \<Rightarrow> u64 \<Rightarrow> u64 \<Rightarrow> aggval option" where
  "dtrace_aggregate_avg data nval arg =
     do { data \<leftarrow> agg_add data 0 1; agg_add data 1 nval }"

definition dtrace_aggregate_stddev :: "aggval \<Rightarrow> u64 \<Rightarrow> u64 \<Rightarrow> aggval option" where
  "dtrace_aggregate_stddev data nval arg =
     do {
       data \<leftarrow> agg_add data 0 1;
       data \<leftarrow> agg_add data 1 nval;
       let snval = (if sint nval < 0 then - nval else nval);
       let tmp = dtrace_multiply_128 snval snval;
       if length data < 4 then None
       else
         (let s = dtrace_add_128 (data ! 2, data ! 3) tmp
          in Some (data[2 := fst s, 3 := snd s]))
     }"

definition dtrace_aggregate_count :: "aggval \<Rightarrow> u64 \<Rightarrow> u64 \<Rightarrow> aggval option" where
  "dtrace_aggregate_count oval nval arg = agg_add oval 0 1"

definition dtrace_aggregate_sum :: "aggval \<Rightarrow> u64 \<Rightarrow> u64 \<Rightarrow> aggval option" where
  "dtrace_aggregate_sum oval nval arg = agg_add oval 0 nval"

text \<open>A sequence of samples, each with the increment argument 1.\<close>

fun agg_run :: "(aggval \<Rightarrow> u64 \<Rightarrow> u64 \<Rightarrow> aggval option) \<Rightarrow> aggval \<Rightarrow> u64 list \<Rightarrow> aggval option" where
  "agg_run f v [] = Some v"
| "agg_run f v (x # xs) = do { v \<leftarrow> f v x 1; agg_run f v xs }"

text \<open>
  The bucket a value belongs to: a negative bucket holds the values from its bound down to the
  bound before it, the zero bucket holds 0, a positive bucket holds the values from its
  bound up to the next one; the two outermost buckets are unbounded.
\<close>

definition in_quantize_bucket :: "nat \<Rightarrow> int \<Rightarrow> bool" where
  "in_quantize_bucket b v \<longleftrightarrow>
     (if b < DTRACE_QUANTIZE_ZEROBUCKET
      then v \<le> DTRACE_QUANTIZE_BUCKETVAL b \<and> (b \<noteq> 0 \<longrightarrow> DTRACE_QUANTIZE_BUCKETVAL (b - 1) < v)
      else DTRACE_QUANTIZE_BUCKETVAL b \<le> v \<and>
        (b + 1 < DTRACE_QUANTIZE_NBUCKETS \<longrightarrow> v < DTRACE_QUANTIZE_BUCKETVAL (b + 1)))"

section \<open>Lemmas\<close>

lemma find_upt_Some_iff:
  "find P [a..<b] = Some i \<longleftrightarrow> a \<le> i \<and> i < b \<and> P i \<and> (\<forall>j. a \<le> j \<and> j < i \<longrightarrow> \<not> P j)"
proof -
  have "find P [a..<b] = Some i \<longleftrightarrow>
      (\<exists>k<b - a. P (a + k) \<and> i = a + k \<and> (\<forall>j<k. \<not> P (a + j)))"
    by (auto simp: find_Some_iff)
  also have "\<dots> \<longleftrightarrow> a \<le> i \<and> i < b \<and> P i \<and> (\<forall>j. a \<le> j \<and> j < i \<longrightarrow> \<not> P j)"
    by (auto simp: le_iff_add intro!: exI [of _ "i - a"])
  finally show ?thesis .
qed

lemma find_upt_None_iff: "find P [a..<b] = None \<longleftrightarrow> (\<forall>j. a \<le> j \<and> j < b \<longrightarrow> \<not> P j)"
  by (auto simp: find_None_iff)

lemma agg_add_in: "i < length a \<Longrightarrow> agg_add a (int i) v = Some (a[i := a ! i + v])"
  by (simp add: agg_add_def)

lemmas quantize_defs = DTRACE_QUANTIZE_BUCKETVAL_def DTRACE_QUANTIZE_ZEROBUCKET_def
  DTRACE_QUANTIZE_NBUCKETS_def

lemma quantize_negative:
  assumes "length quanta = DTRACE_QUANTIZE_NBUCKETS" "sint nval < 0"
  shows "\<exists>b<DTRACE_QUANTIZE_NBUCKETS. in_quantize_bucket b (sint nval) \<and>
    dtrace_aggregate_quantize quanta nval incr = Some (quanta[b := quanta ! b + incr])"
proof (cases "find (\<lambda>i. sint nval \<le> DTRACE_QUANTIZE_BUCKETVAL i) [0..<DTRACE_QUANTIZE_ZEROBUCKET]")
  case None
  then have "\<not> sint nval \<le> DTRACE_QUANTIZE_BUCKETVAL 62"
    by (auto simp: find_upt_None_iff DTRACE_QUANTIZE_ZEROBUCKET_def)
  then show ?thesis using assms(2) by (simp add: quantize_defs)
next
  case (Some b)
  then have "b < 63" "in_quantize_bucket b (sint nval)"
    by (auto simp: find_upt_Some_iff in_quantize_bucket_def DTRACE_QUANTIZE_ZEROBUCKET_def not_le)
  then show ?thesis
    using assms Some
    by (intro exI [of _ b])
      (simp add: dtrace_aggregate_quantize_def agg_add_in DTRACE_QUANTIZE_NBUCKETS_def)
qed

lemma quantize_nonneg:
  assumes "length quanta = DTRACE_QUANTIZE_NBUCKETS" "0 \<le> sint nval"
  shows "\<exists>b<DTRACE_QUANTIZE_NBUCKETS. in_quantize_bucket b (sint nval) \<and>
    dtrace_aggregate_quantize quanta nval incr = Some (quanta[b := quanta ! b + incr])"
proof (cases "find (\<lambda>i. sint nval < DTRACE_QUANTIZE_BUCKETVAL i)
    [DTRACE_QUANTIZE_ZEROBUCKET + 1..<DTRACE_QUANTIZE_NBUCKETS]")
  case None
  then have "\<forall>j. 64 \<le> j \<and> j < 127 \<longrightarrow> \<not> sint nval < DTRACE_QUANTIZE_BUCKETVAL j"
    unfolding find_upt_None_iff by (simp add: quantize_defs(2,3))
  then have "\<not> sint nval < DTRACE_QUANTIZE_BUCKETVAL 126" by simp
  then show ?thesis
    using assms None agg_add_in [of 126 quanta incr]
    by (intro exI [of _ 126])
      (simp add: dtrace_aggregate_quantize_def in_quantize_bucket_def DTRACE_QUANTIZE_NBUCKETS_def
        DTRACE_QUANTIZE_ZEROBUCKET_def)
next
  case (Some i)
  then have i: "64 \<le> i" "i < 127" "sint nval < DTRACE_QUANTIZE_BUCKETVAL i"
    and least: "\<And>j. 64 \<le> j \<Longrightarrow> j < i \<Longrightarrow> DTRACE_QUANTIZE_BUCKETVAL j \<le> sint nval"
    unfolding find_upt_Some_iff by (auto simp: quantize_defs(2,3) not_less)
  have "DTRACE_QUANTIZE_BUCKETVAL (i - 1) \<le> sint nval"
    using least [of "i - 1"] i assms(2) by (cases "i = 64") (auto simp: quantize_defs)
  then have "in_quantize_bucket (i - 1) (sint nval)"
    using i by (auto simp: in_quantize_bucket_def DTRACE_QUANTIZE_ZEROBUCKET_def)
  moreover have "agg_add quanta (int i - 1) incr = Some (quanta[i - 1 := quanta ! (i - 1) + incr])"
    using i assms(1) agg_add_in [of "i - 1" quanta incr]
    by (simp add: of_nat_diff DTRACE_QUANTIZE_NBUCKETS_def)
  ultimately show ?thesis
    using assms Some i
    by (intro exI [of _ "i - 1"])
      (simp add: dtrace_aggregate_quantize_def DTRACE_QUANTIZE_NBUCKETS_def less_imp_diff_less)
qed

section \<open>The contract of an aggregating function\<close>

text \<open>
  What \<^verbatim>\<open>dtrace_aggregate\<close> relies on: on a well-formed value an aggregating function stays
  inside the value and keeps it well formed.
\<close>

locale aggregating_function =
  fixes f :: "aggval \<Rightarrow> u64 \<Rightarrow> u64 \<Rightarrow> aggval option"
    and wf :: "aggval \<Rightarrow> bool"
  assumes f_total: "wf v \<Longrightarrow> \<exists>v'. f v x a = Some v' \<and> wf v' \<and> length v' = length v"

locale aggregation_measure = aggregating_function f wf
  for f :: "aggval \<Rightarrow> u64 \<Rightarrow> u64 \<Rightarrow> aggval option" and wf :: "aggval \<Rightarrow> bool" +
  fixes h :: "aggval \<Rightarrow> 'm" and g :: "'m \<Rightarrow> u64 \<Rightarrow> 'm"
  assumes f_measure: "wf v \<Longrightarrow> f v x 1 = Some v' \<Longrightarrow> h v' = g (h v) x"
begin

lemma agg_run_measure:
  "wf v \<Longrightarrow> \<exists>v'. agg_run f v xs = Some v' \<and> wf v' \<and> h v' = foldl g (h v) xs"
proof (induction xs arbitrary: v)
  case (Cons x xs)
  then obtain v' where "f v x 1 = Some v'" "wf v'" "h v' = g (h v) x"
    using f_total f_measure by blast
  then show ?case using Cons.IH [of v'] by simp
qed simp

end

interpretation agg_count: aggregation_measure dtrace_aggregate_count "\<lambda>v. length v = 1" hd "\<lambda>n x. n + 1"
  by unfold_locales (auto simp: dtrace_aggregate_count_def agg_add_def length_Suc_conv)

interpretation agg_sum: aggregation_measure dtrace_aggregate_sum "\<lambda>v. length v = 1" hd "\<lambda>n x. n + x"
  by unfold_locales (auto simp: dtrace_aggregate_sum_def agg_add_def length_Suc_conv)

interpretation agg_min: aggregation_measure dtrace_aggregate_min "\<lambda>v. length v = 1" "\<lambda>v. sint (hd v)"
    "\<lambda>m x. min m (sint x)"
  by unfold_locales (auto simp: dtrace_aggregate_min_def length_Suc_conv split: if_splits)

interpretation agg_max: aggregation_measure dtrace_aggregate_max "\<lambda>v. length v = 1" "\<lambda>v. sint (hd v)"
    "\<lambda>m x. max m (sint x)"
  by unfold_locales (auto simp: dtrace_aggregate_max_def length_Suc_conv split: if_splits)

interpretation agg_avg: aggregation_measure dtrace_aggregate_avg "\<lambda>v. length v = 2" "\<lambda>v. (v ! 0, v ! 1)"
    "\<lambda>(n, s) x. (n + 1, s + x)"
  by unfold_locales (auto simp: dtrace_aggregate_avg_def agg_add_def)

interpretation agg_stddev: aggregation_measure dtrace_aggregate_stddev "\<lambda>v. length v = 4"
    "\<lambda>v. (v ! 0, v ! 1, val128 (v ! 2, v ! 3))"
    "\<lambda>(n, s, q) x. (n + 1, s + x, (q + nat ((sint x)\<^sup>2)) mod 2 ^ 128)"
proof (unfold_locales, goal_cases)
  case (1 v x a)
  then show ?case by (simp add: dtrace_aggregate_stddev_def agg_add_def Let_def)
next
  case (2 v x v')
  moreover have "nat \<bar>sint x\<bar> * nat \<bar>sint x\<bar> = nat ((sint x)\<^sup>2)"
    by (simp add: power2_eq_square flip: nat_mult_distrib)
  ultimately show ?case
    by (auto simp add: dtrace_aggregate_stddev_def agg_add_def Let_def val128_add val128_multiply
        unat_abs64)
qed

section \<open>Linear quantization\<close>

text \<open>
  The values the driver lets through when it creates an \<^verbatim>\<open>lquantize()\<close> aggregation
  (\<^verbatim>\<open>dtrace_ecb_aggregation_create\<close>): non-zero step and levels, and three words more than
  there are levels.
\<close>

definition lquantize_wf :: "aggval \<Rightarrow> bool" where
  "lquantize_wf v \<longleftrightarrow> v \<noteq> [] \<and> DTRACE_LQUANTIZE_STEP (hd v) \<noteq> 0 \<and>
     DTRACE_LQUANTIZE_LEVELS (hd v) \<noteq> 0 \<and>
     length v = unat (DTRACE_LQUANTIZE_LEVELS (hd v)) + 3"

definition lquantize_index :: "u64 \<Rightarrow> int \<Rightarrow> nat" where
  "lquantize_index arg v =
     (let base = sint (DTRACE_LQUANTIZE_BASE arg); step = uint (DTRACE_LQUANTIZE_STEP arg);
          levels = uint (DTRACE_LQUANTIZE_LEVELS arg)
      in if v < base then 1
         else if (v - base) div step < levels then nat ((v - base) div step) + 2
         else nat levels + 2)"

lemma sint_range32: "- (2 ^ 31) \<le> sint (x :: u32)" "sint (x :: u32) < 2 ^ 31"
  using sint_range_size [of x] by (simp_all add: word_size)

lemma sint_sub32:
  fixes x y :: u32
  assumes "sint y \<le> sint x" "sint x - sint y < 2 ^ 31"
  shows "sint (x - y) = sint x - sint y"
proof -
  have "x - y = word_of_int (sint x - sint y)" by (simp add: word_of_int_sint)
  then show ?thesis
    using assms by (simp only: sint_sbintrunc' signed_take_bit_int_eq_self) (simp add: signed_take_bit_int_eq_self)
qed

lemma lquantize_in_range:
  assumes "lquantize_wf v"
    and "sint (ucast nval :: u32) - sint (DTRACE_LQUANTIZE_BASE (hd v)) < 2 ^ 31"
  shows "let i = lquantize_index (hd v) (sint (ucast nval :: u32)) in
    i < length v \<and> 0 < i \<and> dtrace_aggregate_lquantize v nval incr = Some (v[i := v ! i + incr])"
proof -
  obtain arg r where v: "v = arg # r" using assms(1) by (cases v) (auto simp: lquantize_wf_def)
  let ?b = "DTRACE_LQUANTIZE_BASE arg" and ?s = "uint (DTRACE_LQUANTIZE_STEP arg)"
    and ?l = "uint (DTRACE_LQUANTIZE_LEVELS arg)" and ?x = "ucast nval :: u32"
  have nz: "0 < ?s" "0 < ?l" and len: "int (length v) = ?l + 3"
    using assms(1) by (auto simp: lquantize_wf_def v word_neq_0_conv uint_0_iff order.not_eq_order_implies_strict)
  show ?thesis
  proof (cases "sint ?x < sint ?b")
    case True
    moreover have "r \<noteq> []" using len nz by (auto simp: v)
    ultimately show ?thesis
      using nz agg_add_in [of 1 v incr]
      by (simp add: dtrace_aggregate_lquantize_def lquantize_index_def Let_def v)
  next
    case False
    then have d: "sint (?x - ?b) = sint ?x - sint ?b" "0 \<le> sint ?x - sint ?b"
      using assms(2) by (simp_all add: v sint_sub32)
    let ?q = "(sint ?x - sint ?b) div ?s"
    have q: "sgn (sint (?x - ?b)) * (\<bar>sint (?x - ?b)\<bar> div ?s) = ?q" "0 \<le> ?q"
      unfolding d(1) using d(2) nz by (auto simp: sgn_if pos_imp_zdiv_nonneg_iff)
    have "nat ?l + 2 < length v" "?q < ?l \<Longrightarrow> nat ?q + 2 < length v"
      using len nz q(2) by linarith+
    then show ?thesis
      using nz q agg_add_in [of "nat ?q + 2" v incr] agg_add_in [of "nat ?l + 2" v incr] False
      by (cases "?q < ?l")
        (simp_all add: dtrace_aggregate_lquantize_def lquantize_index_def Let_def v add.commute)
  qed
qed

lemma sint_sub32_wraps:
  fixes x y :: u32
  assumes "2 ^ 31 \<le> sint x - sint y"
  shows "sint (x - y) = sint x - sint y - 2 ^ 32"
proof -
  have "x - y = word_of_int (sint x - sint y - 2 ^ 32)" by (simp add: word_of_int_sint)
  moreover have "- (2 ^ 31) \<le> sint x - sint y - 2 ^ 32" "sint x - sint y - 2 ^ 32 < 2 ^ 31"
    using assms sint_range32 [of x] sint_range32 [of y] by simp_all
  ultimately show ?thesis
    by (simp only: sint_sbintrunc' signed_take_bit_int_eq_self) (simp add: signed_take_bit_int_eq_self)
qed

lemma lquantize_wraps:
  assumes "lquantize_wf v"
    and "2 ^ 31 \<le> sint (ucast nval :: u32) - sint (DTRACE_LQUANTIZE_BASE (hd v))"
  shows "let short = 2 ^ 32 - (sint (ucast nval :: u32) - sint (DTRACE_LQUANTIZE_BASE (hd v)));
      q = short div uint (DTRACE_LQUANTIZE_STEP (hd v)) in
    dtrace_aggregate_lquantize v nval incr
      = (if 3 \<le> q then None else Some (v[nat (2 - q) := v ! nat (2 - q) + incr]))"
proof -
  obtain arg r where v: "v = arg # r" using assms(1) by (cases v) (auto simp: lquantize_wf_def)
  let ?b = "DTRACE_LQUANTIZE_BASE arg" and ?s = "uint (DTRACE_LQUANTIZE_STEP arg)"
    and ?l = "uint (DTRACE_LQUANTIZE_LEVELS arg)" and ?x = "ucast nval :: u32"
  define short where "short = 2 ^ 32 - (sint ?x - sint ?b)"
  have nz: "0 < ?s" "0 < ?l" and len: "int (length v) = ?l + 3"
    using assms(1) by (auto simp: lquantize_wf_def v word_neq_0_conv uint_0_iff order.not_eq_order_implies_strict)
  have d: "sint (?x - ?b) = - short" "0 < short" "\<not> sint ?x < sint ?b"
    using assms(2) sint_sub32_wraps [of ?x ?b] sint_range32 [of ?x] sint_range32 [of ?b] by (simp_all add: v short_def)
  define q where "q = short div ?s"
  have q: "0 \<le> q" using d(2) nz by (simp add: q_def pos_imp_zdiv_nonneg_iff)
  have level: "sgn (sint (?x - ?b)) * (\<bar>sint (?x - ?b)\<bar> div ?s) = - q"
    unfolding d(1) using d(2) by (simp add: q_def)
  have "dtrace_aggregate_lquantize v nval incr = agg_add v (2 - q) incr"
    using nz d(3) q unfolding dtrace_aggregate_lquantize_def v list.case Let_def level by simp
  also have "\<dots> = (if 3 \<le> q then None else Some (v[nat (2 - q) := v ! nat (2 - q) + incr]))"
    using q len nz by (auto simp: agg_add_def)
  finally show ?thesis by (simp add: Let_def v short_def q_def)
qed

lemma foldl_stddev:
  "q < 2 ^ 128 \<Longrightarrow> foldl (\<lambda>(n, s, q) x. (n + 1 :: u64, s + x, (q + nat ((sint x)\<^sup>2)) mod 2 ^ 128)) (n, s, q) xs
    = (n + of_nat (length xs), s + sum_list xs, (q + nat (\<Sum>x\<leftarrow>xs. (sint x)\<^sup>2)) mod 2 ^ 128)"
proof (induction xs arbitrary: n s q)
  case (Cons x xs)
  have "0 \<le> (\<Sum>x\<leftarrow>xs. (sint x)\<^sup>2)" by (induction xs) auto
  then have "nat ((sint x)\<^sup>2 + (\<Sum>x\<leftarrow>xs. (sint x)\<^sup>2)) = nat ((sint x)\<^sup>2) + nat (\<Sum>x\<leftarrow>xs. (sint x)\<^sup>2)"
    by (simp add: nat_add_distrib)
  then show ?case using Cons.IH by (simp add: add.assoc mod_add_left_eq)
qed simp

lemma stddev_run:
  "\<exists>d. agg_run dtrace_aggregate_stddev [0, 0, 0, 0] xs = Some d \<and> length d = 4 \<and>
     d ! 0 = of_nat (length xs) \<and> d ! 1 = sum_list xs \<and>
     val128 (d ! 2, d ! 3) = nat (\<Sum>x\<leftarrow>xs. (sint x)\<^sup>2) mod 2 ^ 128"
  using agg_stddev.agg_run_measure [of "[0, 0, 0, 0]" xs] foldl_stddev [of 0 0 0 xs]
  by (auto simp: val128_def)

section \<open>Properties\<close>

text \<open>
  \<^bold>\<open>C29.\<close> \<^verbatim>\<open>quantize()\<close> of any 64-bit value adds the increment to exactly one of the 127
  buckets, and it is the power-of-two bucket the value belongs to; the assertion at the end of
  the function is never reached.
\<close>

theorem dtrace_aggregate_quantize_bucket:
  assumes "length quanta = DTRACE_QUANTIZE_NBUCKETS"
  shows "\<exists>b<DTRACE_QUANTIZE_NBUCKETS. in_quantize_bucket b (sint nval) \<and>
    dtrace_aggregate_quantize quanta nval incr = Some (quanta[b := quanta ! b + incr])"
  using assms quantize_negative quantize_nonneg by (cases "sint nval < 0") auto

theorem dtrace_aggregate_quantize_bucket_witness:
  "length (replicate 127 (0 :: u64)) = DTRACE_QUANTIZE_NBUCKETS \<and>
   (\<exists>b<DTRACE_QUANTIZE_NBUCKETS. in_quantize_bucket b (sint (- 5 :: u64)) \<and>
      dtrace_aggregate_quantize (replicate 127 0) (- 5) 1
        = Some ((replicate 127 0)[b := replicate 127 0 ! b + 1]))"
  using dtrace_aggregate_quantize_bucket [of "replicate 127 0" "- 5" 1]
  by (simp add: DTRACE_QUANTIZE_NBUCKETS_def)

text \<open>
  \<^bold>\<open>C30.\<close> \<^verbatim>\<open>lquantize()\<close> adds the increment to the underflow bucket, to the linear level the
  value falls in, or to the overflow bucket, and leaves the encoded argument and all other
  buckets alone, as long as the value exceeds the base by less than \<open>2 ^ 31\<close>.
\<close>

theorem dtrace_aggregate_lquantize_bucket:
  assumes "lquantize_wf v"
    and "sint (ucast nval :: u32) - sint (DTRACE_LQUANTIZE_BASE (hd v)) < 2 ^ 31"
  shows "let i = lquantize_index (hd v) (sint (ucast nval :: u32)) in
    i < length v \<and> 0 < i \<and> dtrace_aggregate_lquantize v nval incr = Some (v[i := v ! i + incr])"
  using assms by (rule lquantize_in_range)

theorem dtrace_aggregate_lquantize_bucket_witness:
  "dtrace_aggregate_lquantize [0x000A00020000000A, 0, 0, 0, 0] 25 1
     = Some [0x000A00020000000A, 0, 0, 1, 0]"
  using dtrace_aggregate_lquantize_bucket [of "[0x000A00020000000A, 0, 0, 0, 0]" 25 1]
  by (simp add: lquantize_wf_def lquantize_index_def DTRACE_LQUANTIZE_STEP_def
      DTRACE_LQUANTIZE_LEVELS_def DTRACE_LQUANTIZE_BASE_def)

text \<open>
  \<^bold>\<open>C31.\<close> Beyond that bound \<^verbatim>\<open>lquantize()\<close> goes wrong for every argument and value: the 32-bit subtraction
  wraps to a negative difference, short of 0 by \<open>2 ^ 32\<close> minus the true one. When it is short by three steps
  or more the write is outside the value, before its first word; by two steps, it changes the encoded
  argument itself; by one, it counts a large value as an underflow; by less than one, as the first level.
\<close>

theorem dtrace_aggregate_lquantize_out_of_bounds:
  assumes "lquantize_wf v"
    and "2 ^ 31 \<le> sint (ucast nval :: u32) - sint (DTRACE_LQUANTIZE_BASE (hd v))"
  shows "let short = 2 ^ 32 - (sint (ucast nval :: u32) - sint (DTRACE_LQUANTIZE_BASE (hd v)));
      q = short div uint (DTRACE_LQUANTIZE_STEP (hd v)) in
    dtrace_aggregate_lquantize v nval incr
      = (if 3 \<le> q then None else Some (v[nat (2 - q) := v ! nat (2 - q) + incr]))"
  using assms by (rule lquantize_wraps)

theorem dtrace_aggregate_lquantize_out_of_bounds_witness:
  "dtrace_aggregate_lquantize [0x00010001FFFFFFFF, 0, 0, 0] 0x7FFFFFFF 1 = None \<and>
   dtrace_aggregate_lquantize [0xFFFF000180000000, 0, 0, 0] 0x7FFE0000 1 = Some [0xFFFF000180000001, 0, 0, 0]"
  using dtrace_aggregate_lquantize_out_of_bounds [of "[0x00010001FFFFFFFF, 0, 0, 0]" "0x7FFFFFFF" 1]
    dtrace_aggregate_lquantize_out_of_bounds [of "[0xFFFF000180000000, 0, 0, 0]" "0x7FFE0000" 1]
  by (simp add: lquantize_wf_def DTRACE_LQUANTIZE_STEP_def DTRACE_LQUANTIZE_LEVELS_def DTRACE_LQUANTIZE_BASE_def Let_def)

text \<open>
  \<^bold>\<open>C32.\<close> Accumulating any sequence of samples with \<^verbatim>\<open>stddev()\<close> from a zeroed value stays inside
  the value's four words and leaves the number of samples, their sum modulo \<open>2 ^ 64\<close>, and the sum of
  their signed squares modulo \<open>2 ^ 128\<close>.
\<close>

theorem dtrace_aggregate_stddev_accumulates:
  "\<exists>d. agg_run dtrace_aggregate_stddev [0, 0, 0, 0] xs = Some d \<and> length d = 4 \<and>
     d ! 0 = of_nat (length xs) \<and> d ! 1 = sum_list xs \<and>
     val128 (d ! 2, d ! 3) = nat (\<Sum>x\<leftarrow>xs. (sint x)\<^sup>2) mod 2 ^ 128"
  by (rule stddev_run)

end
