(* ===== verification/LDT_Stddev.thy ===== *)
theory LDT_Stddev
  imports DT_Arith128 "HOL-Library.While_Combinator"
begin

text \<open>
  The consumer's 128-bit arithmetic and the standard deviation it prints for a
  \<^verbatim>\<open>stddev()\<close> aggregation (\<^verbatim>\<open>libdtrace/dt_consume.c\<close>): comparison, shift,
  subtraction, long division, integer square root, \<^verbatim>\<open>dt_stddev\<close>.
\<close>

section \<open>Operations\<close>

definition dt_gt_128 :: "u128 \<Rightarrow> u128 \<Rightarrow> bool" where
  "dt_gt_128 a b \<longleftrightarrow> snd a > snd b \<or> (snd a = snd b \<and> fst a > fst b)"

definition dt_ge_128 :: "u128 \<Rightarrow> u128 \<Rightarrow> bool" where
  "dt_ge_128 a b \<longleftrightarrow> snd a > snd b \<or> (snd a = snd b \<and> fst a \<ge> fst b)"

definition dt_le_128 :: "u128 \<Rightarrow> u128 \<Rightarrow> bool" where
  "dt_le_128 a b \<longleftrightarrow> snd a < snd b \<or> (snd a = snd b \<and> fst a \<le> fst b)"

definition dt_shift_128 :: "u128 \<Rightarrow> int \<Rightarrow> u128" where
  "dt_shift_128 a b =
     (if b = 0 then a
      else if b < 0 then
        (let n = nat (- b) in
         if n \<ge> 64 then (shr64 (snd a) (n - 64), 0)
         else
           (let mask = shl64 1 (64 - n) - 1
            in (shr64 (fst a) n OR shl64 (snd a AND mask) (64 - n), shr64 (snd a) n)))
      else
        (let n = nat b in
         if n \<ge> 64 then (0, shl64 (fst a) (n - 64))
         else
           (let mask = shr64 (fst a) (64 - n)
            in (shl64 (fst a) n, shl64 (snd a) n OR mask))))"

text \<open>The loop of \<^verbatim>\<open>dt_nbits_128\<close>: its state is \<^verbatim>\<open>tmp\<close> and \<^verbatim>\<open>nbits\<close>.\<close>

definition dt_nbits_128 :: "u128 \<Rightarrow> nat option" where
  "dt_nbits_128 a =
     map_option snd
       (while_option (\<lambda>(tmp, nbits). dt_gt_128 tmp (0, 0))
          (\<lambda>(tmp, nbits). (dt_shift_128 tmp (- 1), nbits + 1))
          (dt_shift_128 a (- 1), 0))"

definition dt_subtract_128 :: "u128 \<Rightarrow> u128 \<Rightarrow> u128" where
  "dt_subtract_128 minuend subtrahend =
     (fst minuend - fst subtrahend,
      snd minuend - snd subtrahend - (if fst minuend < fst subtrahend then 1 else 0))"

definition dt_add_128 :: "u128 \<Rightarrow> u128 \<Rightarrow> u128" where
  "dt_add_128 addend1 addend2 =
     (let r0 = fst addend1 + fst addend2;
          r1 = snd addend1 + snd addend2
               + (if r0 < fst addend1 \<or> r0 < fst addend2 then 1 else 0)
      in (r0, r1))"

definition dt_multiply_128 :: "u64 \<Rightarrow> u64 \<Rightarrow> u128" where
  "dt_multiply_128 factor1 factor2 =
     (let hi1 = shr64 factor1 32; hi2 = shr64 factor2 32;
          lo1 = factor1 AND DT_MASK_LO; lo2 = factor2 AND DT_MASK_LO;
          product = (lo1 * lo2, hi1 * hi2);
          tmp = dt_shift_128 (hi1 * lo2, 0) 32;
          product = dt_add_128 product tmp;
          tmp = dt_shift_128 (hi2 * lo1, 0) 32
      in dt_add_128 product tmp)"

text \<open>The count of significant bits of the divisor: \<^verbatim>\<open>while (divisor > 0) log++\<close>.\<close>

function divisor_log :: "u64 \<Rightarrow> nat \<Rightarrow> nat" where
  "divisor_log divisor log =
     (if divisor > 0 then divisor_log (shr64 divisor 1) (log + 1) else log)"
  by pat_completeness auto
termination
  by (relation "measure (unat \<circ> fst)") (auto simp: unat_shr64 word_less_nat_alt)

declare divisor_log.simps [simp del]

text \<open>
  Long division. The state of the loop is \<^verbatim>\<open>remainder\<close>, \<^verbatim>\<open>subtrahend\<close>, \<^verbatim>\<open>mask\<close> and
  \<^verbatim>\<open>result\<close>; a zero divisor fails the function's assertion.
\<close>

definition dt_divide_cond :: "u128 \<Rightarrow> u128 \<times> u128 \<times> u128 \<times> u128 \<Rightarrow> bool" where
  "dt_divide_cond divisor_128 = (\<lambda>(remainder, subtrahend, mask, result).
     dt_ge_128 remainder divisor_128)"

definition dt_divide_body ::
  "u128 \<times> u128 \<times> u128 \<times> u128 \<Rightarrow> u128 \<times> u128 \<times> u128 \<times> u128" where
  "dt_divide_body = (\<lambda>(remainder, subtrahend, mask, result).
     (let (remainder, result) =
        (if dt_ge_128 remainder subtrahend
         then (dt_subtract_128 remainder subtrahend,
               (fst result OR fst mask, snd result OR snd mask))
         else (remainder, result))
      in (remainder, dt_shift_128 subtrahend (- 1), dt_shift_128 mask (- 1), result)))"

definition dt_divide_128 :: "u128 \<Rightarrow> u64 \<Rightarrow> u128 option" where
  "dt_divide_128 dividend divisor =
     (if divisor = 0 then None
      else
        (let log = divisor_log divisor 0;
             subtrahend = dt_shift_128 (divisor, 0) (128 - int log);
             mask = dt_shift_128 (1, 0) (128 - int log)
         in map_option (\<lambda>(remainder, subtrahend, mask, result). result)
              (while_option (dt_divide_cond (divisor, 0)) dt_divide_body
                 (dividend, subtrahend, mask, (0, 0)))))"

text \<open>One round of \<^verbatim>\<open>dt_sqrt_128\<close> on \<^verbatim>\<open>result\<close>, \<^verbatim>\<open>diff\<close> and \<^verbatim>\<open>pair_shift\<close>.\<close>

definition dt_sqrt_round :: "u128 \<Rightarrow> u128 \<times> u128 \<times> int \<Rightarrow> u128 \<times> u128 \<times> int" where
  "dt_sqrt_round square = (\<lambda>(result, diff, pair_shift).
     (let next_pair = (fst (dt_shift_128 square (- pair_shift)) AND 3, 0);
          diff = dt_add_128 (dt_shift_128 diff 2) next_pair;
          next_try = dt_add_128 (dt_shift_128 result 2) (1, 0)
      in if dt_le_128 next_try diff
         then (dt_add_128 (dt_shift_128 result 1) (1, 0), dt_subtract_128 diff next_try,
               pair_shift - 2)
         else (dt_shift_128 result 1, diff, pair_shift - 2)))"

definition dt_sqrt_128 :: "u128 \<Rightarrow> u64 option" where
  "dt_sqrt_128 square =
     (case dt_nbits_128 square of
        None \<Rightarrow> None
      | Some nbits \<Rightarrow>
          (let bit_pairs = nbits div 2;
               (result, diff, pair_shift) =
                 (dt_sqrt_round square ^^ Suc bit_pairs) ((0, 0), (0, 0), int (bit_pairs * 2))
           in if snd result = 0 then Some (fst result) else None))"

text \<open>
  \<^verbatim>\<open>data\<close> is the aggregation value: count, sum, and the low and high limb of the sum of
  squares. \<open>None\<close> stands for a failed assertion or a trapping division.
\<close>

definition dt_stddev :: "u64 \<times> u64 \<times> u64 \<times> u64 \<Rightarrow> u64 \<Rightarrow> u64 option" where
  "dt_stddev data normal =
     (let (count, total, sq0, sq1) = data in
      do {
        avg_of_squares \<leftarrow> dt_divide_128 (sq0, sq1) normal;
        avg_of_squares \<leftarrow> dt_divide_128 avg_of_squares count;
        q \<leftarrow> sdiv64 total normal;
        norm_avg \<leftarrow> sdiv64 q count;
        let norm_avg = (if sint norm_avg < 0 then - norm_avg else norm_avg);
        let square_of_avg = dt_multiply_128 norm_avg norm_avg;
        dt_sqrt_128 (dt_subtract_128 avg_of_squares square_of_avg)
      })"

section \<open>Comparison, subtraction, bit count\<close>

lemma dt_shift_eq: "dt_shift_128 = dtrace_shift_128"
  by (simp add: fun_eq_iff dt_shift_128_def dtrace_shift_128_def)

lemma dt_add_eq: "dt_add_128 = dtrace_add_128"
  by (simp add: fun_eq_iff dt_add_128_def dtrace_add_128_def)

lemma dt_multiply_eq: "dt_multiply_128 = dtrace_multiply_128"
  by (simp add: fun_eq_iff dt_multiply_128_def dtrace_multiply_128_def dt_shift_eq dt_add_eq)

lemma val128_less_iff:
  "val128 a < val128 b \<longleftrightarrow> snd a < snd b \<or> (snd a = snd b \<and> fst a < fst b)"
proof -
  have a: "unat (fst a) < 2 ^ 64" and b: "unat (fst b) < 2 ^ 64"
    by (rule unat_less_2p64)+
  consider "unat (snd a) < unat (snd b)" | "unat (snd a) = unat (snd b)"
    | "unat (snd a) > unat (snd b)" by linarith
  then show ?thesis
  proof cases
    case 1
    then have "2 ^ 64 * (unat (snd a) + 1) \<le> 2 ^ 64 * unat (snd b)" by simp
    then show ?thesis using 1 a by (simp add: val128_def word_less_nat_alt)
  next
    case 2
    then show ?thesis by (simp add: val128_def word_less_nat_alt word_unat_eq_iff)
  next
    case 3
    then have "2 ^ 64 * (unat (snd b) + 1) \<le> 2 ^ 64 * unat (snd a)" by simp
    then show ?thesis using 3 b by (auto simp: val128_def word_less_nat_alt)
  qed
qed

lemma dt_gt_iff: "dt_gt_128 a b \<longleftrightarrow> val128 a > val128 b"
  by (auto simp: dt_gt_128_def val128_less_iff)

lemma dt_ge_iff: "dt_ge_128 a b \<longleftrightarrow> val128 a \<ge> val128 b"
  by (auto simp: dt_ge_128_def val128_less_iff not_less [symmetric])

lemma dt_le_iff: "dt_le_128 a b \<longleftrightarrow> val128 a \<le> val128 b"
  by (auto simp: dt_le_128_def val128_less_iff not_less [symmetric])

lemma val128_shift_1: "val128 (dt_shift_128 a (- 1)) = val128 a div 2"
  by (simp add: dt_shift_eq val128_shift_right)

lemma val128_small [simp]: "val128 (x, 0) = unat x"
  by (simp add: val128_def)

lemma val128_subtract:
  assumes "val128 b \<le> val128 a"
  shows "val128 (dt_subtract_128 a b) = val128 a - val128 b"
proof -
  obtain a0 a1 b0 b1 where ab: "a = (a0, a1)" "b = (b0, b1)" by (cases a, cases b)
  note bounds = unat_less_2p64 [of a0] unat_less_2p64 [of b0]
  show ?thesis
  proof (cases "a0 < b0")
    case True
    have "val128 b \<le> val128 a \<Longrightarrow> b1 < a1"
      using True by (auto simp: ab not_less [symmetric] val128_less_iff)
    then have less: "b1 < a1" using assms by simp
    then have "unat (a1 - b1 - 1) = unat a1 - unat b1 - 1"
      by (simp add: word_less_nat_alt unat_sub_if' word_le_nat_alt)
    moreover have "unat (a0 - b0) = 2 ^ 64 + unat a0 - unat b0"
      using True by (simp add: unat_sub_if' word_less_nat_alt)
    moreover have "unat b1 + 1 \<le> unat a1" using less by (simp add: word_less_nat_alt)
    ultimately show ?thesis
      using True bounds by (auto simp: ab val128_def dt_subtract_128_def algebra_simps)
  next
    case False
    have "b1 \<le> a1"
      using assms by (auto simp: ab not_less [symmetric] val128_less_iff)
    then show ?thesis
      using False by (simp add: ab val128_def dt_subtract_128_def unat_sub not_less
          word_le_nat_alt word_less_nat_alt algebra_simps)
  qed
qed

lemma dt_nbits_total:
  "\<exists>n. dt_nbits_128 a = Some n \<and> val128 a < 2 ^ (n + 1) \<and> (0 < n \<longrightarrow> 2 ^ n \<le> val128 a)"
proof -
  let ?b = "\<lambda>(tmp, nbits :: nat). dt_gt_128 tmp (0, 0)"
  let ?c = "\<lambda>(tmp, nbits). (dt_shift_128 tmp (- 1), nbits + 1)"
  let ?s = "(dt_shift_128 a (- 1), 0)"
  let ?P = "\<lambda>(tmp, n). val128 tmp = val128 a div 2 ^ (n + 1) \<and> (0 < n \<longrightarrow> 2 ^ n \<le> val128 a)"
  have init: "?P ?s" by (simp add: val128_shift_1)
  have step: "?P (?c s)" if "?P s" "?b s" for s
  proof -
    obtain tmp n where s: "s = (tmp, n)" by (cases s)
    have "0 < val128 a div 2 ^ (n + 1)" using that by (simp add: s dt_gt_iff)
    then have "2 ^ (n + 1) \<le> val128 a" by (simp add: div_greater_zero_iff)
    then show ?thesis
      using that by (simp add: s val128_shift_1 div_mult2_eq [symmetric] mult.commute)
  qed
  have "\<exists>t. while_option ?b ?c ?s = Some t"
    by (rule measure_while_option_Some [where P = "\<lambda>_. True" and f = "\<lambda>(tmp, n). val128 tmp"])
      (auto simp: val128_shift_1 dt_gt_iff)
  then obtain tmp n where w: "while_option ?b ?c ?s = Some (tmp, n)" by auto
  have "?P (tmp, n)" by (rule while_option_rule [OF step w init])
  moreover have "\<not> ?b (tmp, n)" by (rule while_option_stop [OF w])
  ultimately have "val128 a div 2 ^ (n + 1) = 0" "0 < n \<longrightarrow> 2 ^ n \<le> val128 a"
    by (auto simp: dt_gt_iff)
  then show ?thesis using w by (simp add: dt_nbits_128_def div_eq_0_iff)
qed

section \<open>Long division\<close>

lemma divisor_log_bounds:
  "\<exists>k. divisor_log d l = l + k \<and> unat d < 2 ^ k \<and> (d \<noteq> 0 \<longrightarrow> 0 < k \<and> 2 ^ (k - 1) \<le> unat d)"
proof (induction d l rule: divisor_log.induct)
  case (1 d l)
  show ?case
  proof (cases "d > 0")
    case True
    then obtain k where k: "divisor_log (shr64 d 1) (l + 1) = l + 1 + k"
      "unat d div 2 < 2 ^ k" "shr64 d 1 \<noteq> 0 \<longrightarrow> 0 < k \<and> 2 ^ (k - 1) \<le> unat d div 2"
      using "1.IH" by (auto simp: unat_shr64)
    have "2 ^ k \<le> unat d"
    proof (cases "shr64 d 1 = 0")
      case zero: True
      then have "k = 0" using k(1) by (simp add: divisor_log.simps)
      then show ?thesis using True by (simp add: word_less_nat_alt)
    next
      case False
      then show ?thesis using k(3) by (cases k) auto
    qed
    then show ?thesis
      using True k by (intro exI [of _ "k + 1"]) (auto simp: divisor_log.simps [of d l])
  qed (auto simp: divisor_log.simps word_gt_0)
qed

lemma val128_or_pow2:
  assumes "2 ^ (j + 1) dvd val128 r" "val128 m = 2 ^ j"
  shows "val128 (fst r OR fst m, snd r OR snd m) = val128 r + 2 ^ j"
proof -
  have w: "w128 (fst r OR fst m, snd r OR snd m) = w128 r OR w128 m"
    by (rule bit_eqI) (cases r; cases m; auto simp: bit_w128 bit_simps)
  from assms(1) obtain c where "val128 r = 2 ^ (j + 1) * c" by (elim dvdE)
  then have "\<not> bit (val128 r) j" by (simp add: bit_iff_odd)
  then have "val128 r AND 2 ^ j = 0" by (simp add: and_exp_eq_0_iff_not_bit)
  then have "val128 r OR 2 ^ j = val128 r + 2 ^ j" by (simp add: disjunctive_add_eq_or)
  then show ?thesis
    using assms(2) by (simp only: val128_w128 w unsigned_or_eq)
qed

definition dt_divide_inv :: "nat \<Rightarrow> nat \<Rightarrow> u128 \<times> u128 \<times> u128 \<times> u128 \<Rightarrow> bool" where
  "dt_divide_inv D d = (\<lambda>(rem, sub, mask, res).
     val128 res * d + val128 rem = D \<and>
     (val128 rem < d \<or>
      (\<exists>j. val128 mask = 2 ^ j \<and> val128 sub = d * 2 ^ j \<and> val128 rem < 2 * (d * 2 ^ j)
         \<and> 2 ^ (j + 1) dvd val128 res)))"

lemma dt_divide_inv_step:
  assumes "dt_divide_inv D d s" "dt_divide_cond (dv, 0) s" "d = unat dv"
  shows "dt_divide_inv D d (dt_divide_body s)
    \<and> val128 (fst (snd (snd (dt_divide_body s)))) < val128 (fst (snd (snd s)))"
proof -
  obtain rem sub mask res where s: "s = (rem, sub, mask, res)" by (cases s) auto
  from assms obtain j where j: "val128 mask = 2 ^ j" "val128 sub = d * 2 ^ j"
    "val128 rem < 2 * (d * 2 ^ j)" "2 ^ (j + 1) dvd val128 res"
    and D: "val128 res * d + val128 rem = D"
    by (auto simp: s dt_divide_inv_def dt_divide_cond_def dt_ge_iff)
  define rem' where "rem' = (if dt_ge_128 rem sub then dt_subtract_128 rem sub else rem)"
  define res' where "res' = (if dt_ge_128 rem sub
    then (fst res OR fst mask, snd res OR snd mask) else res)"
  have body: "dt_divide_body s = (rem', dt_shift_128 sub (- 1), dt_shift_128 mask (- 1), res')"
    by (simp add: s dt_divide_body_def rem'_def res'_def)
  have rem': "val128 rem' < d * 2 ^ j"
    using j by (auto simp: rem'_def dt_ge_iff val128_subtract)
  have D': "val128 res' * d + val128 rem' = D"
    using j D val128_or_pow2 [OF j(4,1)]
    by (auto simp: rem'_def res'_def dt_ge_iff val128_subtract algebra_simps)
  have dvd: "2 ^ j dvd val128 res'"
    using j(4) val128_or_pow2 [OF j(4,1)] by (auto simp: res'_def elim: dvd_mult_left)
  have "dt_divide_inv D d (dt_divide_body s)"
  proof (cases j)
    case 0
    then show ?thesis using rem' D' by (simp add: body dt_divide_inv_def)
  next
    case (Suc i)
    have "val128 (dt_shift_128 mask (- 1)) = 2 ^ i" "val128 (dt_shift_128 sub (- 1)) = d * 2 ^ i"
      using j Suc by (simp_all add: val128_shift_1)
    then show ?thesis
      using rem' D' dvd Suc by (auto simp: body dt_divide_inv_def)
  qed
  moreover have "val128 (dt_shift_128 mask (- 1)) < val128 mask"
    using j by (simp add: val128_shift_1)
  ultimately show ?thesis by (simp add: body) (simp add: s)
qed

lemma dt_divide_total:
  assumes "dv \<noteq> 0"
  shows "\<exists>q. dt_divide_128 D dv = Some q \<and> val128 q = val128 D div unat dv"
proof -
  let ?d = "unat dv"
  obtain k where k: "divisor_log dv 0 = k" "?d < 2 ^ k" "0 < k" "2 ^ (k - 1) \<le> ?d"
    using divisor_log_bounds [of dv 0] assms by auto
  have "2 ^ (k - 1) < (2 :: nat) ^ 64" using k(4) unat_less_2p64 [of dv] by (rule le_less_trans)
  then have "k - 1 < 64" by (simp only: power_strict_increasing_iff)
  then have k64: "k \<le> 64" by simp
  define j where "j = 128 - k"
  have j: "128 - int k = int j" "j < 128" using k(3) k64 by (simp_all add: j_def)
  have "?d * 2 ^ j < 2 ^ k * 2 ^ j" using k(2) by simp
  then have dj: "?d * 2 ^ j < 2 ^ 128" using k64 by (simp add: j_def flip: power_add)
  have "2 ^ (k - 1) * 2 ^ j \<le> ?d * 2 ^ j" using k(4) by simp
  then have "2 ^ 127 \<le> ?d * 2 ^ j" using k(3) k64 by (simp add: j_def flip: power_add)
  moreover define s0 where
    "s0 = (D, dt_shift_128 (dv, 0) (int j), dt_shift_128 (1, 0) (int j), ((0, 0) :: u128))"
  moreover have "(2 :: nat) ^ j < 2 ^ 128" using j(2) by (rule power_strict_increasing) simp
  ultimately have init: "dt_divide_inv (val128 D) ?d s0"
    using dj j(2) val128_less [of D]
    by (auto simp: dt_divide_inv_def dt_shift_eq val128_shift_left intro!: exI [of _ j])
  note step = dt_divide_inv_step [OF _ _ refl]
  have "\<exists>t. while_option (dt_divide_cond (dv, 0)) dt_divide_body s0 = Some t"
    by (rule measure_while_option_Some [where P = "dt_divide_inv (val128 D) ?d"
        and f = "\<lambda>(rem, sub, mask, res). val128 mask"])
      (use step init in \<open>auto simp: case_prod_unfold\<close>)
  then obtain rem sub mask q where
    w: "while_option (dt_divide_cond (dv, 0)) dt_divide_body s0 = Some (rem, sub, mask, q)"
    by (metis prod_cases4)
  have "dt_divide_inv (val128 D) ?d (rem, sub, mask, q)"
    by (rule while_option_rule [where P = "dt_divide_inv (val128 D) ?d", OF _ w init])
      (use step in blast)
  moreover have "\<not> dt_divide_cond (dv, 0) (rem, sub, mask, q)" by (rule while_option_stop [OF w])
  ultimately have "val128 q * ?d + val128 rem = val128 D" "val128 rem < ?d"
    by (auto simp: dt_divide_inv_def dt_divide_cond_def dt_ge_iff)
  then have "val128 D div ?d = val128 q"
    by (metis div_less div_mult_self3 add.commute add.right_neutral less_nat_zero_code)
  then show ?thesis
    using assms w by (simp add: dt_divide_128_def k(1) j(1) s0_def [symmetric])
qed

section \<open>Square root\<close>

lemma val128_next_pair:
  assumes "i < 64"
  shows "unat (fst (dt_shift_128 a (- int (2 * i))) AND 3) = val128 a div 4 ^ i mod 4"
proof -
  have three: "x AND 3 = take_bit 2 x" for x :: u64
    by (simp add: take_bit_eq_mask mask_eq_exp_minus_1)
  obtain lo hi where a: "a = (lo, hi)" by (cases a)
  have "bit (fst (dt_shift_128 a (- int (2 * i)))) k = bit (w128 a) (2 * i + k)" if "k < 2" for k
    using assms that
    by (auto simp: a dt_shift_128_def Let_def bit_w128 bit_simps shl64_def shr64_def ac_simps
        nat_mult_distrib less_2_cases_iff mask_eq_exp_minus_1 [symmetric]
        dest: bit_imp_le_length)
  then have "take_bit 2 (fst (dt_shift_128 a (- int (2 * i)))) = ucast (take_bit 2 (drop_bit (2 * i) (w128 a)))"
    by (intro bit_eqI) (auto simp: bit_simps)
  then have "unat (fst (dt_shift_128 a (- int (2 * i))) AND 3)
      = unat (ucast (take_bit 2 (drop_bit (2 * i) (w128 a))) :: u64)"
    by (simp only: three)
  also have "\<dots> = take_bit 64 (take_bit 2 (drop_bit (2 * i) (unat (w128 a))))"
    by (simp only: unsigned_ucast_eq unsigned_take_bit_eq unat_drop_bit_eq) simp
  also have "\<dots> = val128 a div 4 ^ i mod 4"
    by (simp add: val128_w128 take_bit_take_bit) (simp add: take_bit_eq_mod drop_bit_eq_div power_mult)
  finally show ?thesis .
qed

definition dt_sqrt_inv :: "nat \<Rightarrow> nat \<Rightarrow> u128 \<times> u128 \<times> int \<Rightarrow> bool" where
  "dt_sqrt_inv S k = (\<lambda>(result, diff, pair_shift).
     pair_shift = 2 * (int k - 1) \<and>
     val128 result * val128 result + val128 diff = S div 4 ^ k \<and>
     val128 diff \<le> 2 * val128 result)"

lemma dt_sqrt_round_inv:
  assumes "dt_sqrt_inv (val128 S) (Suc k) st" "k < 64"
  shows "dt_sqrt_inv (val128 S) k (dt_sqrt_round S st)"
proof -
  obtain result diff where st: "st = (result, diff, int (2 * k))"
    using assms by (cases st) (auto simp: dt_sqrt_inv_def)
  let ?R = "val128 result" and ?D = "val128 diff" and ?p = "val128 S div 4 ^ k mod 4"
  have inv: "?R * ?R + ?D = val128 S div 4 ^ k div 4" "?D \<le> 2 * ?R"
    using assms by (auto simp: st dt_sqrt_inv_def div_mult2_eq [symmetric] mult.commute)
  have "val128 S div 4 ^ k div 4 \<le> val128 S div 4" by (simp add: div_le_mono)
  also have "\<dots> < 2 ^ 126" using val128_less [of S] by (simp add: less_mult_imp_div_less)
  finally have "val128 S div 4 ^ k div 4 < 2 ^ 126" .
  then have "?R * ?R < 2 ^ 63 * 2 ^ 63" using inv(1) by simp
  then have R: "?R < 2 ^ 63" by (meson mult_le_mono not_le)
  have p: "?p < 4" by simp
  define next_pair where "next_pair = fst (dt_shift_128 S (- int (2 * k))) AND 3"
  have pair: "unat next_pair = ?p"
    unfolding next_pair_def by (rule val128_next_pair [OF assms(2)])
  define diff' where "diff' = dt_add_128 (dt_shift_128 diff 2) (next_pair, 0)"
  define next_try where "next_try = dt_add_128 (dt_shift_128 result 2) (1, 0)"
  have D': "val128 diff' = 4 * ?D + ?p"
    using R inv(2) p
    by (simp add: diff'_def dt_add_eq dt_shift_eq val128_add val128_shift_left pair mult.commute)
  have T: "val128 next_try = 4 * ?R + 1"
    using R by (simp add: next_try_def dt_add_eq dt_shift_eq val128_add val128_shift_left mult.commute)
  have S': "4 * (?R * ?R + ?D) + ?p = val128 S div 4 ^ k"
    unfolding inv(1) by simp
  have R1: "val128 (dt_shift_128 result 1) = 2 * ?R"
    using R by (simp add: dt_shift_eq val128_shift_left mult.commute)
  have round: "dt_sqrt_round S st =
    (if dt_le_128 next_try diff'
     then (dt_add_128 (dt_shift_128 result 1) (1, 0), dt_subtract_128 diff' next_try, int (2 * k) - 2)
     else (dt_shift_128 result 1, diff', int (2 * k) - 2))"
    by (simp add: st dt_sqrt_round_def Let_def diff'_def next_pair_def next_try_def)
  have R2: "val128 (dt_add_128 (dt_shift_128 result 1) (1, 0)) = 2 * ?R + 1"
    using R by (simp add: dt_add_eq val128_add R1)
  show ?thesis
  proof (cases "val128 next_try \<le> val128 diff'")
    case True
    then show ?thesis
      using S' inv(2) p D' T
      by (simp add: round dt_le_iff dt_sqrt_inv_def val128_subtract R2 algebra_simps)
  next
    case False
    then show ?thesis
      using S' D' T by (simp add: round dt_le_iff dt_sqrt_inv_def R1 algebra_simps)
  qed
qed

lemma dt_sqrt_rounds_inv:
  assumes "n \<le> 64" "dt_sqrt_inv (val128 S) n st"
  shows "dt_sqrt_inv (val128 S) 0 ((dt_sqrt_round S ^^ n) st)"
  using assms
proof (induction n arbitrary: st)
  case (Suc n)
  then have "dt_sqrt_inv (val128 S) n (dt_sqrt_round S st)"
    by (simp add: dt_sqrt_round_inv)
  then have "dt_sqrt_inv (val128 S) 0 ((dt_sqrt_round S ^^ n) (dt_sqrt_round S st))"
    using Suc by simp
  then show ?case by (simp add: funpow_swap1)
qed simp

lemma dt_sqrt_total:
  "\<exists>r. dt_sqrt_128 S = Some r \<and> unat r * unat r \<le> val128 S \<and> val128 S < (unat r + 1) * (unat r + 1)"
proof -
  obtain n where n: "dt_nbits_128 S = Some n" "val128 S < 2 ^ (n + 1)" "0 < n \<longrightarrow> 2 ^ n \<le> val128 S"
    using dt_nbits_total by blast
  have "n < 128"
  proof (cases "n = 0")
    case False
    then have "2 ^ n < (2 :: nat) ^ 128" using n(3) val128_less [of S] by linarith
    then show ?thesis by (simp only: power_strict_increasing_iff)
  qed simp
  then have b: "Suc (n div 2) \<le> 64" by linarith
  have "n + 1 \<le> 2 * Suc (n div 2)" by presburger
  then have "(2 :: nat) ^ (n + 1) \<le> 2 ^ (2 * Suc (n div 2))" by (rule power_increasing) simp
  then have "val128 S div 4 ^ Suc (n div 2) = 0"
    using n(2) by (simp add: power_mult)
  then have "dt_sqrt_inv (val128 S) (Suc (n div 2)) ((0, 0), (0, 0), int (n div 2 * 2))"
    by (simp add: dt_sqrt_inv_def)
  from dt_sqrt_rounds_inv [OF b this] obtain result diff ps where
    st: "(dt_sqrt_round S ^^ Suc (n div 2)) ((0, 0), (0, 0), int (n div 2 * 2)) = (result, diff, ps)"
    and inv: "val128 result * val128 result + val128 diff = val128 S" "val128 diff \<le> 2 * val128 result"
    by (cases "(dt_sqrt_round S ^^ Suc (n div 2)) ((0, 0), (0, 0), int (n div 2 * 2))")
      (auto simp: dt_sqrt_inv_def)
  have "val128 result * val128 result < 2 ^ 64 * 2 ^ 64" using inv(1) val128_less [of S] by simp
  then have "val128 result < 2 ^ 64" by (meson mult_le_mono not_le)
  then have hi: "snd result = 0"
    by (auto simp: val128_def unat_eq_0 [symmetric])
  then have "val128 result = unat (fst result)" by (simp add: val128_def)
  then show ?thesis
    using n(1) st hi inv by (simp add: dt_sqrt_128_def Let_def algebra_simps del: funpow.simps)
qed

section \<open>Standard deviation\<close>

lemma sint_pos64: "0 < n \<Longrightarrow> n < 2 ^ 63 \<Longrightarrow> sint (of_nat n :: u64) = int n"
  using sint_word_of_int64 [of "int n"] by simp

lemma dt_stddev_total:
  assumes "0 < n" "n < 2 ^ 63" "0 < N" "N < 2 ^ 63"
    and le: "(nat \<bar>sint tot\<bar> div N div n)\<^sup>2 \<le> val128 sq div N div n"
  shows "\<exists>r. dt_stddev (of_nat n, tot, fst sq, snd sq) (of_nat N) = Some r \<and>
    (unat r)\<^sup>2 \<le> val128 sq div N div n - (nat \<bar>sint tot\<bar> div N div n)\<^sup>2 \<and>
    val128 sq div N div n - (nat \<bar>sint tot\<bar> div N div n)\<^sup>2 < (unat r + 1)\<^sup>2"
proof -
  have un: "unat (of_nat n :: u64) = n" "unat (of_nat N :: u64) = N"
    using assms by (simp_all add: unat_of_nat)
  then have nz: "(of_nat n :: u64) \<noteq> 0" "(of_nat N :: u64) \<noteq> 0"
    using assms by (metis less_numeral_extra(3) unsigned_0)+
  obtain a where a: "dt_divide_128 sq (of_nat N) = Some a" "val128 a = val128 sq div N"
    using dt_divide_total [OF nz(2), of sq] un by auto
  obtain b where b: "dt_divide_128 a (of_nat n) = Some b" "val128 b = val128 sq div N div n"
    using dt_divide_total [OF nz(1), of a] un a by auto
  obtain q where q: "sdiv64 tot (of_nat N) = Some q"
      "sint q = sgn (sint tot) * (\<bar>sint tot\<bar> div int N)"
    using sint_sdiv64 [of "of_nat N" tot] assms by (auto simp: sint_pos64)
  obtain m where m: "sdiv64 q (of_nat n) = Some m" "sint m = sgn (sint q) * (\<bar>sint q\<bar> div int n)"
    using sint_sdiv64 [of "of_nat n" q] assms by (auto simp: sint_pos64)
  let ?m = "if sint m < 0 then - m else m"
  have "\<bar>sgn x * (\<bar>x\<bar> div int k)\<bar> = \<bar>x\<bar> div int k" for x :: int and k
    by (cases "k = 0") (auto simp: sgn_if pos_imp_zdiv_nonneg_iff)
  then have "\<bar>sint m\<bar> = \<bar>sint q\<bar> div int n" "\<bar>sint q\<bar> = \<bar>sint tot\<bar> div int N"
    unfolding m(2) q(2) by blast+
  then have "\<bar>sint m\<bar> = \<bar>sint tot\<bar> div int N div int n" by simp
  then have um: "unat ?m = nat \<bar>sint tot\<bar> div N div n"
    by (simp only: unat_abs64) (simp add: nat_div_distrib')
  have "val128 (dt_multiply_128 ?m ?m) = (nat \<bar>sint tot\<bar> div N div n)\<^sup>2"
    by (simp add: dt_multiply_eq val128_multiply um power2_eq_square)
  then have "val128 (dt_subtract_128 b (dt_multiply_128 ?m ?m)) =
      val128 sq div N div n - (nat \<bar>sint tot\<bar> div N div n)\<^sup>2"
    using le b by (simp add: val128_subtract)
  then have "\<exists>r. dt_sqrt_128 (dt_subtract_128 b (dt_multiply_128 ?m ?m)) = Some r \<and>
    (unat r)\<^sup>2 \<le> val128 sq div N div n - (nat \<bar>sint tot\<bar> div N div n)\<^sup>2 \<and>
    val128 sq div N div n - (nat \<bar>sint tot\<bar> div N div n)\<^sup>2 < (unat r + 1)\<^sup>2"
    using dt_sqrt_total [of "dt_subtract_128 b (dt_multiply_128 ?m ?m)"]
    by (simp only: power2_eq_square)
  moreover have "dt_stddev (of_nat n, tot, fst sq, snd sq) (of_nat N)
      = dt_sqrt_128 (dt_subtract_128 b (dt_multiply_128 ?m ?m))"
    using a(1) by (cases sq) (simp add: dt_stddev_def Let_def b(1) q(1) m(1))
  ultimately show ?thesis by simp
qed

section \<open>Properties\<close>

text \<open>
  \<^bold>\<open>C27.\<close> \<^verbatim>\<open>dt_divide_128\<close> returns for every non-zero divisor, and its result is the
  integer quotient of the 128-bit dividend.
\<close>

theorem dt_divide_128_correct:
  assumes "divisor \<noteq> 0"
  shows "\<exists>q. dt_divide_128 dividend divisor = Some q \<and> val128 q = val128 dividend div unat divisor"
  using assms by (rule dt_divide_total)

theorem dt_divide_128_correct_witness:
  "(3 :: u64) \<noteq> 0 \<and> (\<exists>q. dt_divide_128 (7, 1) 3 = Some q \<and> val128 q = val128 (7, 1) div 3)"
  using dt_divide_128_correct [of 3 "(7, 1)"] by simp

text \<open>
  \<^bold>\<open>C28.\<close> \<^verbatim>\<open>dt_sqrt_128\<close> returns on every 128-bit square, never fails its assertion, and
  its result is the integer square root: the largest 64-bit \<open>r\<close> with \<open>r * r\<close> at most the
  argument.
\<close>

theorem dt_sqrt_128_floor:
  "\<exists>r. dt_sqrt_128 square = Some r \<and> (unat r)\<^sup>2 \<le> val128 square \<and> val128 square < (unat r + 1)\<^sup>2"
  using dt_sqrt_total [of square] by (simp add: power2_eq_square)

end
