(* ===== verification/DT_Dif.thy ===== *)
theory DT_Dif
  imports DT_Prelude
begin

text \<open>
  The DTrace Intermediate Format of \<^verbatim>\<open>uts/common/sys/dtrace.h\<close>: opcodes, limits, variable
  and subroutine numbers, the instruction field macros, the instruction constructors, and
  the records for DIF types, variables and objects.
\<close>

section \<open>Opcodes\<close>

datatype dif_op =
  DIF_OP_OR | DIF_OP_XOR | DIF_OP_AND | DIF_OP_SLL | DIF_OP_SRL | DIF_OP_SUB |
  DIF_OP_ADD | DIF_OP_MUL | DIF_OP_SDIV | DIF_OP_UDIV | DIF_OP_SREM | DIF_OP_UREM |
  DIF_OP_NOT | DIF_OP_MOV | DIF_OP_CMP | DIF_OP_TST | DIF_OP_BA | DIF_OP_BE |
  DIF_OP_BNE | DIF_OP_BG | DIF_OP_BGU | DIF_OP_BGE | DIF_OP_BGEU | DIF_OP_BL |
  DIF_OP_BLU | DIF_OP_BLE | DIF_OP_BLEU | DIF_OP_LDSB | DIF_OP_LDSH | DIF_OP_LDSW |
  DIF_OP_LDUB | DIF_OP_LDUH | DIF_OP_LDUW | DIF_OP_LDX | DIF_OP_RET | DIF_OP_NOP |
  DIF_OP_SETX | DIF_OP_SETS | DIF_OP_SCMP | DIF_OP_LDGA | DIF_OP_LDGS | DIF_OP_STGS |
  DIF_OP_LDTA | DIF_OP_LDTS | DIF_OP_STTS | DIF_OP_SRA | DIF_OP_CALL | DIF_OP_PUSHTR |
  DIF_OP_PUSHTV | DIF_OP_POPTS | DIF_OP_FLUSHTS | DIF_OP_LDGAA | DIF_OP_LDTAA |
  DIF_OP_STGAA | DIF_OP_STTAA | DIF_OP_LDLS | DIF_OP_STLS | DIF_OP_ALLOCS |
  DIF_OP_COPYS | DIF_OP_STB | DIF_OP_STH | DIF_OP_STW | DIF_OP_STX | DIF_OP_ULDSB |
  DIF_OP_ULDSH | DIF_OP_ULDSW | DIF_OP_ULDUB | DIF_OP_ULDUH | DIF_OP_ULDUW |
  DIF_OP_ULDX | DIF_OP_RLDSB | DIF_OP_RLDSH | DIF_OP_RLDSW | DIF_OP_RLDUB |
  DIF_OP_RLDUH | DIF_OP_RLDUW | DIF_OP_RLDX | DIF_OP_XLATE | DIF_OP_XLARG

primrec op_code :: "dif_op \<Rightarrow> nat" where
  "op_code DIF_OP_OR = 1"
| "op_code DIF_OP_XOR = 2"
| "op_code DIF_OP_AND = 3"
| "op_code DIF_OP_SLL = 4"
| "op_code DIF_OP_SRL = 5"
| "op_code DIF_OP_SUB = 6"
| "op_code DIF_OP_ADD = 7"
| "op_code DIF_OP_MUL = 8"
| "op_code DIF_OP_SDIV = 9"
| "op_code DIF_OP_UDIV = 10"
| "op_code DIF_OP_SREM = 11"
| "op_code DIF_OP_UREM = 12"
| "op_code DIF_OP_NOT = 13"
| "op_code DIF_OP_MOV = 14"
| "op_code DIF_OP_CMP = 15"
| "op_code DIF_OP_TST = 16"
| "op_code DIF_OP_BA = 17"
| "op_code DIF_OP_BE = 18"
| "op_code DIF_OP_BNE = 19"
| "op_code DIF_OP_BG = 20"
| "op_code DIF_OP_BGU = 21"
| "op_code DIF_OP_BGE = 22"
| "op_code DIF_OP_BGEU = 23"
| "op_code DIF_OP_BL = 24"
| "op_code DIF_OP_BLU = 25"
| "op_code DIF_OP_BLE = 26"
| "op_code DIF_OP_BLEU = 27"
| "op_code DIF_OP_LDSB = 28"
| "op_code DIF_OP_LDSH = 29"
| "op_code DIF_OP_LDSW = 30"
| "op_code DIF_OP_LDUB = 31"
| "op_code DIF_OP_LDUH = 32"
| "op_code DIF_OP_LDUW = 33"
| "op_code DIF_OP_LDX = 34"
| "op_code DIF_OP_RET = 35"
| "op_code DIF_OP_NOP = 36"
| "op_code DIF_OP_SETX = 37"
| "op_code DIF_OP_SETS = 38"
| "op_code DIF_OP_SCMP = 39"
| "op_code DIF_OP_LDGA = 40"
| "op_code DIF_OP_LDGS = 41"
| "op_code DIF_OP_STGS = 42"
| "op_code DIF_OP_LDTA = 43"
| "op_code DIF_OP_LDTS = 44"
| "op_code DIF_OP_STTS = 45"
| "op_code DIF_OP_SRA = 46"
| "op_code DIF_OP_CALL = 47"
| "op_code DIF_OP_PUSHTR = 48"
| "op_code DIF_OP_PUSHTV = 49"
| "op_code DIF_OP_POPTS = 50"
| "op_code DIF_OP_FLUSHTS = 51"
| "op_code DIF_OP_LDGAA = 52"
| "op_code DIF_OP_LDTAA = 53"
| "op_code DIF_OP_STGAA = 54"
| "op_code DIF_OP_STTAA = 55"
| "op_code DIF_OP_LDLS = 56"
| "op_code DIF_OP_STLS = 57"
| "op_code DIF_OP_ALLOCS = 58"
| "op_code DIF_OP_COPYS = 59"
| "op_code DIF_OP_STB = 60"
| "op_code DIF_OP_STH = 61"
| "op_code DIF_OP_STW = 62"
| "op_code DIF_OP_STX = 63"
| "op_code DIF_OP_ULDSB = 64"
| "op_code DIF_OP_ULDSH = 65"
| "op_code DIF_OP_ULDSW = 66"
| "op_code DIF_OP_ULDUB = 67"
| "op_code DIF_OP_ULDUH = 68"
| "op_code DIF_OP_ULDUW = 69"
| "op_code DIF_OP_ULDX = 70"
| "op_code DIF_OP_RLDSB = 71"
| "op_code DIF_OP_RLDSH = 72"
| "op_code DIF_OP_RLDSW = 73"
| "op_code DIF_OP_RLDUB = 74"
| "op_code DIF_OP_RLDUH = 75"
| "op_code DIF_OP_RLDUW = 76"
| "op_code DIF_OP_RLDX = 77"
| "op_code DIF_OP_XLATE = 78"
| "op_code DIF_OP_XLARG = 79"

text \<open>The opcodes in numerical order, for decoding.\<close>

definition dif_ops :: "dif_op list" where
  "dif_ops = [
    DIF_OP_OR, DIF_OP_XOR, DIF_OP_AND, DIF_OP_SLL, DIF_OP_SRL, DIF_OP_SUB, DIF_OP_ADD,
    DIF_OP_MUL, DIF_OP_SDIV, DIF_OP_UDIV, DIF_OP_SREM, DIF_OP_UREM, DIF_OP_NOT,
    DIF_OP_MOV, DIF_OP_CMP, DIF_OP_TST, DIF_OP_BA, DIF_OP_BE, DIF_OP_BNE, DIF_OP_BG,
    DIF_OP_BGU, DIF_OP_BGE, DIF_OP_BGEU, DIF_OP_BL, DIF_OP_BLU, DIF_OP_BLE, DIF_OP_BLEU,
    DIF_OP_LDSB, DIF_OP_LDSH, DIF_OP_LDSW, DIF_OP_LDUB, DIF_OP_LDUH, DIF_OP_LDUW,
    DIF_OP_LDX, DIF_OP_RET, DIF_OP_NOP, DIF_OP_SETX, DIF_OP_SETS, DIF_OP_SCMP,
    DIF_OP_LDGA, DIF_OP_LDGS, DIF_OP_STGS, DIF_OP_LDTA, DIF_OP_LDTS, DIF_OP_STTS,
    DIF_OP_SRA, DIF_OP_CALL, DIF_OP_PUSHTR, DIF_OP_PUSHTV, DIF_OP_POPTS, DIF_OP_FLUSHTS,
    DIF_OP_LDGAA, DIF_OP_LDTAA, DIF_OP_STGAA, DIF_OP_STTAA, DIF_OP_LDLS, DIF_OP_STLS,
    DIF_OP_ALLOCS, DIF_OP_COPYS, DIF_OP_STB, DIF_OP_STH, DIF_OP_STW, DIF_OP_STX,
    DIF_OP_ULDSB, DIF_OP_ULDSH, DIF_OP_ULDSW, DIF_OP_ULDUB, DIF_OP_ULDUH, DIF_OP_ULDUW,
    DIF_OP_ULDX, DIF_OP_RLDSB, DIF_OP_RLDSH, DIF_OP_RLDSW, DIF_OP_RLDUB, DIF_OP_RLDUH,
    DIF_OP_RLDUW, DIF_OP_RLDX, DIF_OP_XLATE, DIF_OP_XLARG]"
section \<open>Limits, variables and subroutines\<close>

abbreviation (input) DIF_DIR_NREGS :: nat where "DIF_DIR_NREGS \<equiv> 8"
abbreviation (input) DIF_DTR_NREGS :: nat where "DIF_DTR_NREGS \<equiv> 8"
abbreviation (input) DIF_VARIABLE_MAX :: nat where "DIF_VARIABLE_MAX \<equiv> 65535"
abbreviation (input) DIF_VAR_ARRAY_MIN :: nat where "DIF_VAR_ARRAY_MIN \<equiv> 0"
abbreviation (input) DIF_VAR_ARRAY_UBASE :: nat where "DIF_VAR_ARRAY_UBASE \<equiv> 128"
abbreviation (input) DIF_VAR_ARRAY_MAX :: nat where "DIF_VAR_ARRAY_MAX \<equiv> 255"
abbreviation (input) DIF_VAR_OTHER_MIN :: nat where "DIF_VAR_OTHER_MIN \<equiv> 256"
abbreviation (input) DIF_VAR_OTHER_UBASE :: nat where "DIF_VAR_OTHER_UBASE \<equiv> 1280"
abbreviation (input) DIF_VAR_OTHER_MAX :: nat where "DIF_VAR_OTHER_MAX \<equiv> 65535"
abbreviation (input) DIF_VAR_ARGS :: nat where "DIF_VAR_ARGS \<equiv> 0"
abbreviation (input) DIF_VAR_REGS :: nat where "DIF_VAR_REGS \<equiv> 1"
abbreviation (input) DIF_VAR_UREGS :: nat where "DIF_VAR_UREGS \<equiv> 2"
abbreviation (input) DIF_VAR_CURTHREAD :: nat where "DIF_VAR_CURTHREAD \<equiv> 256"
abbreviation (input) DIF_VAR_TIMESTAMP :: nat where "DIF_VAR_TIMESTAMP \<equiv> 257"
abbreviation (input) DIF_VAR_VTIMESTAMP :: nat where "DIF_VAR_VTIMESTAMP \<equiv> 258"
abbreviation (input) DIF_VAR_IPL :: nat where "DIF_VAR_IPL \<equiv> 259"
abbreviation (input) DIF_VAR_EPID :: nat where "DIF_VAR_EPID \<equiv> 260"
abbreviation (input) DIF_VAR_ID :: nat where "DIF_VAR_ID \<equiv> 261"
abbreviation (input) DIF_VAR_ARG0 :: nat where "DIF_VAR_ARG0 \<equiv> 262"
abbreviation (input) DIF_VAR_ARG1 :: nat where "DIF_VAR_ARG1 \<equiv> 263"
abbreviation (input) DIF_VAR_ARG2 :: nat where "DIF_VAR_ARG2 \<equiv> 264"
abbreviation (input) DIF_VAR_ARG3 :: nat where "DIF_VAR_ARG3 \<equiv> 265"
abbreviation (input) DIF_VAR_ARG4 :: nat where "DIF_VAR_ARG4 \<equiv> 266"
abbreviation (input) DIF_VAR_ARG5 :: nat where "DIF_VAR_ARG5 \<equiv> 267"
abbreviation (input) DIF_VAR_ARG6 :: nat where "DIF_VAR_ARG6 \<equiv> 268"
abbreviation (input) DIF_VAR_ARG7 :: nat where "DIF_VAR_ARG7 \<equiv> 269"
abbreviation (input) DIF_VAR_ARG8 :: nat where "DIF_VAR_ARG8 \<equiv> 270"
abbreviation (input) DIF_VAR_ARG9 :: nat where "DIF_VAR_ARG9 \<equiv> 271"
abbreviation (input) DIF_VAR_STACKDEPTH :: nat where "DIF_VAR_STACKDEPTH \<equiv> 272"
abbreviation (input) DIF_VAR_CALLER :: nat where "DIF_VAR_CALLER \<equiv> 273"
abbreviation (input) DIF_VAR_PROBEPROV :: nat where "DIF_VAR_PROBEPROV \<equiv> 274"
abbreviation (input) DIF_VAR_PROBEMOD :: nat where "DIF_VAR_PROBEMOD \<equiv> 275"
abbreviation (input) DIF_VAR_PROBEFUNC :: nat where "DIF_VAR_PROBEFUNC \<equiv> 276"
abbreviation (input) DIF_VAR_PROBENAME :: nat where "DIF_VAR_PROBENAME \<equiv> 277"
abbreviation (input) DIF_VAR_PID :: nat where "DIF_VAR_PID \<equiv> 278"
abbreviation (input) DIF_VAR_TID :: nat where "DIF_VAR_TID \<equiv> 279"
abbreviation (input) DIF_VAR_EXECNAME :: nat where "DIF_VAR_EXECNAME \<equiv> 280"
abbreviation (input) DIF_VAR_ZONENAME :: nat where "DIF_VAR_ZONENAME \<equiv> 281"
abbreviation (input) DIF_VAR_WALLTIMESTAMP :: nat where "DIF_VAR_WALLTIMESTAMP \<equiv> 282"
abbreviation (input) DIF_VAR_USTACKDEPTH :: nat where "DIF_VAR_USTACKDEPTH \<equiv> 283"
abbreviation (input) DIF_VAR_UCALLER :: nat where "DIF_VAR_UCALLER \<equiv> 284"
abbreviation (input) DIF_VAR_PPID :: nat where "DIF_VAR_PPID \<equiv> 285"
abbreviation (input) DIF_VAR_UID :: nat where "DIF_VAR_UID \<equiv> 286"
abbreviation (input) DIF_VAR_GID :: nat where "DIF_VAR_GID \<equiv> 287"
abbreviation (input) DIF_VAR_ERRNO :: nat where "DIF_VAR_ERRNO \<equiv> 288"
abbreviation (input) DIF_SUBR_RAND :: nat where "DIF_SUBR_RAND \<equiv> 0"
abbreviation (input) DIF_SUBR_MUTEX_OWNED :: nat where "DIF_SUBR_MUTEX_OWNED \<equiv> 1"
abbreviation (input) DIF_SUBR_MUTEX_OWNER :: nat where "DIF_SUBR_MUTEX_OWNER \<equiv> 2"
abbreviation (input) DIF_SUBR_MUTEX_TYPE_ADAPTIVE :: nat where "DIF_SUBR_MUTEX_TYPE_ADAPTIVE \<equiv> 3"
abbreviation (input) DIF_SUBR_MUTEX_TYPE_SPIN :: nat where "DIF_SUBR_MUTEX_TYPE_SPIN \<equiv> 4"
abbreviation (input) DIF_SUBR_RW_READ_HELD :: nat where "DIF_SUBR_RW_READ_HELD \<equiv> 5"
abbreviation (input) DIF_SUBR_RW_WRITE_HELD :: nat where "DIF_SUBR_RW_WRITE_HELD \<equiv> 6"
abbreviation (input) DIF_SUBR_RW_ISWRITER :: nat where "DIF_SUBR_RW_ISWRITER \<equiv> 7"
abbreviation (input) DIF_SUBR_COPYIN :: nat where "DIF_SUBR_COPYIN \<equiv> 8"
abbreviation (input) DIF_SUBR_COPYINSTR :: nat where "DIF_SUBR_COPYINSTR \<equiv> 9"
abbreviation (input) DIF_SUBR_SPECULATION :: nat where "DIF_SUBR_SPECULATION \<equiv> 10"
abbreviation (input) DIF_SUBR_PROGENYOF :: nat where "DIF_SUBR_PROGENYOF \<equiv> 11"
abbreviation (input) DIF_SUBR_STRLEN :: nat where "DIF_SUBR_STRLEN \<equiv> 12"
abbreviation (input) DIF_SUBR_COPYOUT :: nat where "DIF_SUBR_COPYOUT \<equiv> 13"
abbreviation (input) DIF_SUBR_COPYOUTSTR :: nat where "DIF_SUBR_COPYOUTSTR \<equiv> 14"
abbreviation (input) DIF_SUBR_ALLOCA :: nat where "DIF_SUBR_ALLOCA \<equiv> 15"
abbreviation (input) DIF_SUBR_BCOPY :: nat where "DIF_SUBR_BCOPY \<equiv> 16"
abbreviation (input) DIF_SUBR_COPYINTO :: nat where "DIF_SUBR_COPYINTO \<equiv> 17"
abbreviation (input) DIF_SUBR_MSGDSIZE :: nat where "DIF_SUBR_MSGDSIZE \<equiv> 18"
abbreviation (input) DIF_SUBR_MSGSIZE :: nat where "DIF_SUBR_MSGSIZE \<equiv> 19"
abbreviation (input) DIF_SUBR_GETMAJOR :: nat where "DIF_SUBR_GETMAJOR \<equiv> 20"
abbreviation (input) DIF_SUBR_GETMINOR :: nat where "DIF_SUBR_GETMINOR \<equiv> 21"
abbreviation (input) DIF_SUBR_DDI_PATHNAME :: nat where "DIF_SUBR_DDI_PATHNAME \<equiv> 22"
abbreviation (input) DIF_SUBR_STRJOIN :: nat where "DIF_SUBR_STRJOIN \<equiv> 23"
abbreviation (input) DIF_SUBR_LLTOSTR :: nat where "DIF_SUBR_LLTOSTR \<equiv> 24"
abbreviation (input) DIF_SUBR_BASENAME :: nat where "DIF_SUBR_BASENAME \<equiv> 25"
abbreviation (input) DIF_SUBR_DIRNAME :: nat where "DIF_SUBR_DIRNAME \<equiv> 26"
abbreviation (input) DIF_SUBR_CLEANPATH :: nat where "DIF_SUBR_CLEANPATH \<equiv> 27"
abbreviation (input) DIF_SUBR_STRCHR :: nat where "DIF_SUBR_STRCHR \<equiv> 28"
abbreviation (input) DIF_SUBR_STRRCHR :: nat where "DIF_SUBR_STRRCHR \<equiv> 29"
abbreviation (input) DIF_SUBR_STRSTR :: nat where "DIF_SUBR_STRSTR \<equiv> 30"
abbreviation (input) DIF_SUBR_STRTOK :: nat where "DIF_SUBR_STRTOK \<equiv> 31"
abbreviation (input) DIF_SUBR_SUBSTR :: nat where "DIF_SUBR_SUBSTR \<equiv> 32"
abbreviation (input) DIF_SUBR_INDEX :: nat where "DIF_SUBR_INDEX \<equiv> 33"
abbreviation (input) DIF_SUBR_RINDEX :: nat where "DIF_SUBR_RINDEX \<equiv> 34"
abbreviation (input) DIF_SUBR_HTONS :: nat where "DIF_SUBR_HTONS \<equiv> 35"
abbreviation (input) DIF_SUBR_HTONL :: nat where "DIF_SUBR_HTONL \<equiv> 36"
abbreviation (input) DIF_SUBR_HTONLL :: nat where "DIF_SUBR_HTONLL \<equiv> 37"
abbreviation (input) DIF_SUBR_NTOHS :: nat where "DIF_SUBR_NTOHS \<equiv> 38"
abbreviation (input) DIF_SUBR_NTOHL :: nat where "DIF_SUBR_NTOHL \<equiv> 39"
abbreviation (input) DIF_SUBR_NTOHLL :: nat where "DIF_SUBR_NTOHLL \<equiv> 40"
abbreviation (input) DIF_SUBR_INET_NTOP :: nat where "DIF_SUBR_INET_NTOP \<equiv> 41"
abbreviation (input) DIF_SUBR_INET_NTOA :: nat where "DIF_SUBR_INET_NTOA \<equiv> 42"
abbreviation (input) DIF_SUBR_INET_NTOA6 :: nat where "DIF_SUBR_INET_NTOA6 \<equiv> 43"
abbreviation (input) DIF_SUBR_MAX :: nat where "DIF_SUBR_MAX \<equiv> 43"

section \<open>Instruction fields\<close>

type_synonym dif_instr = u32

definition DIF_INSTR_OP :: "dif_instr \<Rightarrow> dif_op option" where
  "DIF_INSTR_OP i =
     (let n = unat (drop_bit 24 i AND 0xFF)
      in if 1 \<le> n \<and> n \<le> length dif_ops then Some (dif_ops ! (n - 1)) else None)"

definition DIF_INSTR_R1 :: "dif_instr \<Rightarrow> nat" where
  "DIF_INSTR_R1 i = unat (drop_bit 16 i AND 0xFF)"

definition DIF_INSTR_R2 :: "dif_instr \<Rightarrow> nat" where
  "DIF_INSTR_R2 i = unat (drop_bit 8 i AND 0xFF)"

definition DIF_INSTR_RD :: "dif_instr \<Rightarrow> nat" where
  "DIF_INSTR_RD i = unat (i AND 0xFF)"

definition DIF_INSTR_RS :: "dif_instr \<Rightarrow> nat" where
  "DIF_INSTR_RS i = unat (i AND 0xFF)"

definition DIF_INSTR_LABEL :: "dif_instr \<Rightarrow> nat" where
  "DIF_INSTR_LABEL i = unat (i AND 0xFFFFFF)"

definition DIF_INSTR_VAR :: "dif_instr \<Rightarrow> nat" where
  "DIF_INSTR_VAR i = unat (drop_bit 8 i AND 0xFFFF)"

definition DIF_INSTR_INTEGER :: "dif_instr \<Rightarrow> nat" where
  "DIF_INSTR_INTEGER i = unat (drop_bit 8 i AND 0xFFFF)"

definition DIF_INSTR_STRING :: "dif_instr \<Rightarrow> nat" where
  "DIF_INSTR_STRING i = unat (drop_bit 8 i AND 0xFFFF)"

definition DIF_INSTR_SUBR :: "dif_instr \<Rightarrow> nat" where
  "DIF_INSTR_SUBR i = unat (drop_bit 8 i AND 0xFFFF)"

definition DIF_INSTR_TYPE :: "dif_instr \<Rightarrow> nat" where
  "DIF_INSTR_TYPE i = unat (drop_bit 16 i AND 0xFF)"

text \<open>
  \<^verbatim>\<open>DIF_INSTR_FMT\<close> and the constructors with a 16-bit field (\<^verbatim>\<open>SETX\<close>, \<^verbatim>\<open>SETS\<close>,
  \<^verbatim>\<open>LDV\<close>, \<^verbatim>\<open>STV\<close>, \<^verbatim>\<open>CALL\<close>) or a label.
\<close>

definition DIF_INSTR_FMT :: "dif_op \<Rightarrow> nat \<Rightarrow> nat \<Rightarrow> nat \<Rightarrow> dif_instr" where
  "DIF_INSTR_FMT op r1 r2 d =
     push_bit 24 (of_nat (op_code op)) OR push_bit 16 (of_nat r1) OR push_bit 8 (of_nat r2) OR of_nat d"

definition DIF_INSTR_LDV :: "dif_op \<Rightarrow> nat \<Rightarrow> nat \<Rightarrow> dif_instr" where
  "DIF_INSTR_LDV op v d = push_bit 24 (of_nat (op_code op)) OR push_bit 8 (of_nat v) OR of_nat d"

definition DIF_INSTR_BRANCH :: "dif_op \<Rightarrow> nat \<Rightarrow> dif_instr" where
  "DIF_INSTR_BRANCH op label = push_bit 24 (of_nat (op_code op)) OR of_nat label"

definition DIF_INSTR_LOAD :: "dif_op \<Rightarrow> nat \<Rightarrow> nat \<Rightarrow> dif_instr" where
  "DIF_INSTR_LOAD op r1 d = DIF_INSTR_FMT op r1 0 d"

section \<open>Types, variables and objects\<close>

record dtrace_diftype =
  dtdt_kind :: u8
  dtdt_ckind :: u8
  dtdt_flags :: u8
  dtdt_size :: u32

abbreviation (input) DIF_TYPE_CTF :: nat where "DIF_TYPE_CTF \<equiv> 0"
abbreviation (input) DIF_TYPE_STRING :: nat where "DIF_TYPE_STRING \<equiv> 1"

definition DIF_TF_BYREF :: "dtrace_diftype \<Rightarrow> bool" where
  "DIF_TF_BYREF t \<longleftrightarrow> dtdt_flags t AND 1 \<noteq> 0"

record dtrace_difv =
  dtdv_name :: u32
  dtdv_id :: u32
  dtdv_kind :: u8
  dtdv_scope :: u8
  dtdv_flags :: u16
  dtdv_type :: dtrace_diftype

abbreviation (input) DIFV_KIND_ARRAY :: u8 where "DIFV_KIND_ARRAY \<equiv> 0"
abbreviation (input) DIFV_KIND_SCALAR :: u8 where "DIFV_KIND_SCALAR \<equiv> 1"
abbreviation (input) DIFV_SCOPE_GLOBAL :: u8 where "DIFV_SCOPE_GLOBAL \<equiv> 0"
abbreviation (input) DIFV_SCOPE_THREAD :: u8 where "DIFV_SCOPE_THREAD \<equiv> 1"
abbreviation (input) DIFV_SCOPE_LOCAL :: u8 where "DIFV_SCOPE_LOCAL \<equiv> 2"

text \<open>
  The lengths \<^verbatim>\<open>dtdo_len\<close>, \<^verbatim>\<open>dtdo_intlen\<close> and \<^verbatim>\<open>dtdo_varlen\<close> are the lengths of the lists;
  \<^verbatim>\<open>dtdo_strtab\<close> is the address of the string table, whose bytes are in memory.
\<close>

record dtrace_difo =
  dtdo_buf :: "dif_instr list"
  dtdo_inttab :: "u64 list"
  dtdo_strtab :: u64
  dtdo_strlen :: u32
  dtdo_vartab :: "dtrace_difv list"
  dtdo_rtype :: dtrace_diftype
  dtdo_refcnt :: u32
  dtdo_destructive :: bool

section \<open>Encoding and decoding\<close>


lemma dif_ops_nth: "dif_ops ! (op_code op - 1) = op" and op_code_range: "1 \<le> op_code op" "op_code op \<le> 79"
  by (cases op; simp add: dif_ops_def)+

lemma length_dif_ops: "length dif_ops = 79"
  by (simp add: dif_ops_def)

lemma fields_or:
  fixes a b c d :: u32
  assumes "take_bit 8 a = a" "take_bit 8 b = b" "take_bit 8 c = c" "take_bit 8 d = d"
  shows "drop_bit 24 (push_bit 24 a OR push_bit 16 b OR push_bit 8 c OR d) AND 0xFF = a"
    "drop_bit 16 (push_bit 24 a OR push_bit 16 b OR push_bit 8 c OR d) AND 0xFF = b"
    "drop_bit 8 (push_bit 24 a OR push_bit 16 b OR push_bit 8 c OR d) AND 0xFF = c"
    "(push_bit 24 a OR push_bit 16 b OR push_bit 8 c OR d) AND 0xFF = d"
proof -
  have m: "(0xFF :: u32) = mask 8" by (simp add: mask_eq_exp_minus_1)
  have z: "\<not> bit a n" "\<not> bit b n" "\<not> bit c n" "\<not> bit d n" if "8 \<le> n" for n
    using that assms by (metis bit_take_bit_iff not_le)+
  show "drop_bit 24 (push_bit 24 a OR push_bit 16 b OR push_bit 8 c OR d) AND 0xFF = a"
    "drop_bit 16 (push_bit 24 a OR push_bit 16 b OR push_bit 8 c OR d) AND 0xFF = b"
    "drop_bit 8 (push_bit 24 a OR push_bit 16 b OR push_bit 8 c OR d) AND 0xFF = c"
    "(push_bit 24 a OR push_bit 16 b OR push_bit 8 c OR d) AND 0xFF = d"
    unfolding m by (rule bit_eqI; use z in \<open>auto simp: bit_simps not_le [symmetric]\<close>)+
qed

lemma small_u32: "n < 2 ^ k \<Longrightarrow> k \<le> 32 \<Longrightarrow> take_bit k (of_nat n :: u32) = of_nat n"
  by (simp add: take_bit_of_nat take_bit_nat_eq_self flip: take_bit_nat_eq_self_iff)

lemma unat_small_u32: "n < 2 ^ 32 \<Longrightarrow> unat (of_nat n :: u32) = n"
  by (simp add: unat_of_nat)

lemma decode_op_code: "drop_bit 24 i AND 0xFF = of_nat (op_code op) \<Longrightarrow> DIF_INSTR_OP i = Some op"
  using op_code_range [of op]
  by (simp add: DIF_INSTR_OP_def length_dif_ops dif_ops_nth [simplified] unat_small_u32)

lemma FMT_fields:
  assumes "r1 < 256" "r2 < 256" "d < 256"
  shows "DIF_INSTR_OP (DIF_INSTR_FMT op r1 r2 d) = Some op"
    "DIF_INSTR_R1 (DIF_INSTR_FMT op r1 r2 d) = r1"
    "DIF_INSTR_R2 (DIF_INSTR_FMT op r1 r2 d) = r2"
    "DIF_INSTR_RD (DIF_INSTR_FMT op r1 r2 d) = d"
proof -
  have "take_bit 8 (of_nat (op_code op) :: u32) = of_nat (op_code op)"
    using op_code_range [of op] by (intro small_u32) auto
  moreover have "take_bit 8 (of_nat r1 :: u32) = of_nat r1" "take_bit 8 (of_nat r2 :: u32) = of_nat r2"
    "take_bit 8 (of_nat d :: u32) = of_nat d"
    using assms by (intro small_u32; simp)+
  ultimately have f: "drop_bit 24 (DIF_INSTR_FMT op r1 r2 d) AND 0xFF = of_nat (op_code op)"
    "drop_bit 16 (DIF_INSTR_FMT op r1 r2 d) AND 0xFF = of_nat r1"
    "drop_bit 8 (DIF_INSTR_FMT op r1 r2 d) AND 0xFF = of_nat r2"
    "DIF_INSTR_FMT op r1 r2 d AND 0xFF = of_nat d"
    unfolding DIF_INSTR_FMT_def by (rule fields_or; assumption)+
  show "DIF_INSTR_OP (DIF_INSTR_FMT op r1 r2 d) = Some op"
    by (rule decode_op_code [OF f(1)])
  show "DIF_INSTR_R1 (DIF_INSTR_FMT op r1 r2 d) = r1" "DIF_INSTR_R2 (DIF_INSTR_FMT op r1 r2 d) = r2"
    "DIF_INSTR_RD (DIF_INSTR_FMT op r1 r2 d) = d"
    using assms by (simp_all only: DIF_INSTR_R1_def DIF_INSTR_R2_def DIF_INSTR_RD_def f unat_small_u32
        less_trans [of _ 256])
      (simp_all add: unat_small_u32)
qed

lemma op_code_nth: "n < 79 \<Longrightarrow> op_code (dif_ops ! n) = Suc n"
proof -
  assume "n < 79"
  have "map op_code dif_ops = [1..<80]" by (simp add: dif_ops_def upt_rec)
  then have "map op_code dif_ops ! n = [1..<80] ! n" by simp
  then show ?thesis using \<open>n < 79\<close> by (simp add: length_dif_ops)
qed

lemma fields_join:
  fixes i :: u32
  shows "push_bit 24 (drop_bit 24 i AND 0xFF) OR push_bit 16 (drop_bit 16 i AND 0xFF)
    OR push_bit 8 (drop_bit 8 i AND 0xFF) OR (i AND 0xFF) = i"
proof -
  have m: "(0xFF :: u32) = mask 8" by (simp add: mask_eq_exp_minus_1)
  show ?thesis
  proof (unfold m, rule bit_eqI)
    fix n
    assume "possible_bit TYPE(u32) n"
    then consider "n < 8" | "8 \<le> n" "n < 16" | "16 \<le> n" "n < 24" | "24 \<le> n" "n < 32"
      by (fastforce simp: possible_bit_def)
    then show "bit (push_bit 24 (drop_bit 24 i AND mask 8) OR push_bit 16 (drop_bit 16 i AND mask 8)
        OR push_bit 8 (drop_bit 8 i AND mask 8) OR (i AND mask 8)) n = bit i n"
      by cases (auto simp: bit_simps)
  qed
qed

lemma FMT_decode:
  assumes "DIF_INSTR_OP i = Some op"
  shows "DIF_INSTR_FMT op (DIF_INSTR_R1 i) (DIF_INSTR_R2 i) (DIF_INSTR_RD i) = i"
proof -
  let ?n = "unat (drop_bit 24 i AND 0xFF)"
  have "1 \<le> ?n" "?n \<le> 79" "dif_ops ! (?n - 1) = op"
    using assms by (simp_all add: DIF_INSTR_OP_def Let_def length_dif_ops split: if_splits)
  then have "op_code op = ?n" using op_code_nth [of "?n - 1"] by simp
  then show ?thesis
    using fields_join [of i]
    by (simp add: DIF_INSTR_FMT_def DIF_INSTR_R1_def DIF_INSTR_R2_def DIF_INSTR_RD_def)
qed

section \<open>Properties\<close>

text \<open>
  \<^bold>\<open>C24.\<close> Encoding an instruction from an opcode and three operands below 256 and decoding it
  gives the opcode and the operands back, for each of the 79 opcodes.
\<close>

theorem dif_instr_decode_encode:
  assumes "r1 < 256" "r2 < 256" "d < 256"
  shows "DIF_INSTR_OP (DIF_INSTR_FMT op r1 r2 d) = Some op \<and>
    DIF_INSTR_R1 (DIF_INSTR_FMT op r1 r2 d) = r1 \<and>
    DIF_INSTR_R2 (DIF_INSTR_FMT op r1 r2 d) = r2 \<and>
    DIF_INSTR_RD (DIF_INSTR_FMT op r1 r2 d) = d"
  using FMT_fields [OF assms] by blast

theorem dif_instr_decode_encode_witness:
  "DIF_INSTR_OP (DIF_INSTR_FMT DIF_OP_COPYS 7 255 1) = Some DIF_OP_COPYS \<and>
   DIF_INSTR_R2 (DIF_INSTR_FMT DIF_OP_COPYS 7 255 1) = 255"
  using dif_instr_decode_encode [of 7 255 1 DIF_OP_COPYS] by simp

text \<open>
  \<^bold>\<open>C25.\<close> An instruction word with a defined opcode is determined by its four decoded fields.
\<close>

theorem dif_instr_encode_decode:
  assumes "DIF_INSTR_OP i = Some op"
  shows "DIF_INSTR_FMT op (DIF_INSTR_R1 i) (DIF_INSTR_R2 i) (DIF_INSTR_RD i) = i"
  using assms by (rule FMT_decode)

theorem dif_instr_encode_decode_witness:
  "DIF_INSTR_FMT DIF_OP_RET (DIF_INSTR_R1 0x23000001) (DIF_INSTR_R2 0x23000001)
     (DIF_INSTR_RD 0x23000001) = 0x23000001"
  using dif_instr_encode_decode [of "0x23000001" DIF_OP_RET]
  by (simp add: DIF_INSTR_OP_def dif_ops_def)

end
