(* ===== verification/DT_Memory.thy ===== *)
theory DT_Memory
  imports DT_Dif
begin

text \<open>
  Memory as the DIF emulator sees it (\<^verbatim>\<open>driver/dtrace.c\<close>): the guarded loads of
  \<^verbatim>\<open>DTRACE_LOADFUNC\<close>, the range tests, \<^verbatim>\<open>dtrace_canstore\<close>, \<^verbatim>\<open>dtrace_canload\<close> and their
  relatives, and the string and block routines built on safe loads.
\<close>

section \<open>State\<close>

text \<open>
  The machine is a byte memory, the DTrace fields of \<^verbatim>\<open>cpu_core[]\<close> for the current CPU, the fields
  of \<^verbatim>\<open>dtrace_mstate_t\<close> the emulator uses, and the consumer's \<^verbatim>\<open>dtrace_vstate_t\<close>.
\<close>

record cpu_core =
  mem :: "u64 \<Rightarrow> u8"
  cpuc_dtrace_flags :: u16
  cpuc_dtrace_illval :: u64

record dtrace_mstate = cpu_core +
  dtms_scratch_base :: u64
  dtms_scratch_ptr :: u64
  dtms_scratch_size :: u64
  dtms_present :: u32
  dtms_fltoffs :: nat
  dtms_access :: u32
  dtms_difo :: dtrace_difo

record dtrace_statvar =
  dtsv_data :: u64
  dtsv_size :: u64
  dtsv_refcnt :: int
  dtsv_var :: dtrace_difv

record dtrace_dstate =
  dtds_base :: u64
  dtds_size :: u64
  dtds_hashsize :: u64
  dtds_chunksize :: u64

text \<open>
  The pointer arrays of \<^verbatim>\<open>dtrace_vstate_t\<close> are lists (\<^verbatim>\<open>dtvs_nglobals\<close> and its siblings are their
  lengths), a NULL entry is \<open>None\<close>. \<open>t_predcache\<close> is the current thread's predicate cache.
\<close>

record mach = dtrace_mstate +
  dtvs_globals :: "dtrace_statvar option list"
  dtvs_tlocals :: "dtrace_difv list"
  dtvs_locals :: "dtrace_statvar option list"
  dtvs_dynvars :: dtrace_dstate
  t_predcache :: u32

text \<open>\<^verbatim>\<open>dtrace_key_t\<close>: value and size (0 for a key by value).\<close>

type_synonym dtrace_key = "u64 \<times> u64"

datatype dtrace_dynvar_op = DTRACE_DYNVAR_ALLOC | DTRACE_DYNVAR_NOALLOC | DTRACE_DYNVAR_DEALLOC

text \<open>
  The host: the toxic ranges (base and limit), which addresses the kernel has mapped, whether a page
  fault taken under \<^verbatim>\<open>CPU_DTRACE_NOFAULT\<close> is turned into \<^verbatim>\<open>CPU_DTRACE_BADADDR\<close> and resumed, the
  \<^verbatim>\<open>strsize\<close> option of the consumer, the default string size, the current CPU and the number of
  CPUs, the thread identifier and active interrupts that make up a thread-local key, and the user
  address tests and user loads of the kernel. The last three fields are the routines the emulator
  calls and this development does not define: built-in variables, subroutines (which may set the
  destination register, and no other) and dynamic variables (which return the address of a variable's
  data, or NULL). Nothing is assumed of where they are defined: \<open>None\<close> is a call that has undefined
  behaviour or fails an assertion.
\<close>

record host =
  dtrace_toxrange :: "(u64 \<times> u64) list"
  h_mapped :: "u64 \<Rightarrow> bool"
  h_nofault :: bool
  h_strsize :: u64
  dtrace_strsize_default :: u64
  h_cpu :: u64
  h_thread_id :: u64
  h_intr_actv :: u32
  h_ncpu :: u64
  h_access_ok :: "u64 \<Rightarrow> nat \<Rightarrow> bool"
  h_userlimit :: u64
  h_fuword_nocheck :: "nat \<Rightarrow> u64 \<Rightarrow> mach \<Rightarrow> u64 \<times> mach"
  dtrace_dif_variable :: "nat \<Rightarrow> u64 \<Rightarrow> mach \<Rightarrow> (u64 \<times> mach) option"
  dtrace_dif_subr :: "nat \<Rightarrow> u64 list \<Rightarrow> dtrace_key list \<Rightarrow> nat \<Rightarrow> mach \<Rightarrow> (u64 option \<times> mach) option"
  dtrace_dynvar :: "dtrace_key list \<Rightarrow> u64 \<Rightarrow> dtrace_dynvar_op \<Rightarrow> mach \<Rightarrow> (u64 option \<times> mach) option"

abbreviation (input) CPU_DTRACE_NOFAULT :: u16 where "CPU_DTRACE_NOFAULT \<equiv> 0x0001"
abbreviation (input) CPU_DTRACE_DROP :: u16 where "CPU_DTRACE_DROP \<equiv> 0x0002"
abbreviation (input) CPU_DTRACE_BADADDR :: u16 where "CPU_DTRACE_BADADDR \<equiv> 0x0004"
abbreviation (input) CPU_DTRACE_BADALIGN :: u16 where "CPU_DTRACE_BADALIGN \<equiv> 0x0008"
abbreviation (input) CPU_DTRACE_DIVZERO :: u16 where "CPU_DTRACE_DIVZERO \<equiv> 0x0010"
abbreviation (input) CPU_DTRACE_ILLOP :: u16 where "CPU_DTRACE_ILLOP \<equiv> 0x0020"
abbreviation (input) CPU_DTRACE_NOSCRATCH :: u16 where "CPU_DTRACE_NOSCRATCH \<equiv> 0x0040"
abbreviation (input) CPU_DTRACE_KPRIV :: u16 where "CPU_DTRACE_KPRIV \<equiv> 0x0080"
abbreviation (input) CPU_DTRACE_UPRIV :: u16 where "CPU_DTRACE_UPRIV \<equiv> 0x0100"
abbreviation (input) CPU_DTRACE_TUPOFLOW :: u16 where "CPU_DTRACE_TUPOFLOW \<equiv> 0x0200"
abbreviation (input) CPU_DTRACE_ENTRY :: u16 where "CPU_DTRACE_ENTRY \<equiv> 0x0800"
abbreviation (input) CPU_DTRACE_BADSTACK :: u16 where "CPU_DTRACE_BADSTACK \<equiv> 0x1000"

definition CPU_DTRACE_FAULT :: u16 where
  "CPU_DTRACE_FAULT = CPU_DTRACE_BADADDR OR CPU_DTRACE_BADALIGN OR CPU_DTRACE_DIVZERO OR
     CPU_DTRACE_ILLOP OR CPU_DTRACE_NOSCRATCH OR CPU_DTRACE_KPRIV OR CPU_DTRACE_UPRIV OR
     CPU_DTRACE_TUPOFLOW OR CPU_DTRACE_BADSTACK"

definition cpu_fault :: "mach \<Rightarrow> bool" where
  "cpu_fault m \<longleftrightarrow> cpuc_dtrace_flags m AND CPU_DTRACE_FAULT \<noteq> 0"

definition DTRACE_CPUFLAG_SET :: "u16 \<Rightarrow> mach \<Rightarrow> mach" where
  "DTRACE_CPUFLAG_SET f m = m\<lparr>cpuc_dtrace_flags := cpuc_dtrace_flags m OR f\<rparr>"

definition DTRACE_CPUFLAG_CLEAR :: "u16 \<Rightarrow> mach \<Rightarrow> mach" where
  "DTRACE_CPUFLAG_CLEAR f m = m\<lparr>cpuc_dtrace_flags := cpuc_dtrace_flags m AND NOT f\<rparr>"

text \<open>\<^verbatim>\<open>*flags |= f; *illval = a\<close>\<close>

definition set_fault :: "u16 \<Rightarrow> u64 \<Rightarrow> mach \<Rightarrow> mach" where
  "set_fault f a m = (DTRACE_CPUFLAG_SET f m)\<lparr>cpuc_dtrace_illval := a\<rparr>"

section \<open>Bytes and words\<close>

fun read_le :: "(u64 \<Rightarrow> u8) \<Rightarrow> nat \<Rightarrow> u64 \<Rightarrow> u64" where
  "read_le b 0 a = 0"
| "read_le b (Suc n) a = ucast (b a) OR push_bit 8 (read_le b n (a + 1))"

fun write_le :: "nat \<Rightarrow> u64 \<Rightarrow> u64 \<Rightarrow> (u64 \<Rightarrow> u8) \<Rightarrow> u64 \<Rightarrow> u8" where
  "write_le 0 a v b = b"
| "write_le (Suc n) a v b = write_le n (a + 1) (drop_bit 8 v) (b(a := ucast v))"

definition store :: "nat \<Rightarrow> u64 \<Rightarrow> u64 \<Rightarrow> mach \<Rightarrow> mach" where
  "store n a v m = m\<lparr>mem := write_le n a v (mem m)\<rparr>"

section \<open>Guarded loads\<close>

text \<open>
  \<^verbatim>\<open>DTRACE_LOADFUNC(bits)\<close> for \<^verbatim>\<open>size = bits / NBBY\<close>. \<open>None\<close> is a page fault the host does not
  resume.
\<close>

definition in_toxrange :: "host \<Rightarrow> u64 \<Rightarrow> u64 \<Rightarrow> bool" where
  "in_toxrange h addr sz \<longleftrightarrow>
     list_ex (\<lambda>(base, limit). \<not> limit \<le> addr \<and> \<not> addr + sz \<le> base) (dtrace_toxrange h)"

definition dtrace_load :: "host \<Rightarrow> nat \<Rightarrow> u64 \<Rightarrow> mach \<Rightarrow> (u64 \<times> mach) option" where
  "dtrace_load h sz addr m =
     (if addr AND (of_nat sz - 1) \<noteq> 0 then Some (0, set_fault CPU_DTRACE_BADALIGN addr m)
      else if in_toxrange h addr (of_nat sz) then Some (0, set_fault CPU_DTRACE_BADADDR addr m)
      else
        (let m = DTRACE_CPUFLAG_SET CPU_DTRACE_NOFAULT m in
         if h_mapped h addr then
           (let rval = read_le (mem m) sz addr; m = DTRACE_CPUFLAG_CLEAR CPU_DTRACE_NOFAULT m
            in Some (if cpu_fault m then 0 else rval, m))
         else if h_nofault h then
           Some (0, DTRACE_CPUFLAG_CLEAR CPU_DTRACE_NOFAULT (set_fault CPU_DTRACE_BADADDR addr m))
         else None))"

section \<open>Range tests\<close>

definition DTRACE_INRANGE :: "u64 \<Rightarrow> u64 \<Rightarrow> u64 \<Rightarrow> u64 \<Rightarrow> bool" where
  "DTRACE_INRANGE testaddr testsz baseaddr basesz \<longleftrightarrow>
     testaddr - baseaddr < basesz \<and>
     testaddr + testsz - baseaddr \<le> basesz \<and>
     testaddr + testsz \<ge> testaddr"

definition DTRACE_INSCRATCH :: "mach \<Rightarrow> u64 \<Rightarrow> bool" where
  "DTRACE_INSCRATCH m alloc_sz \<longleftrightarrow>
     dtms_scratch_base m + dtms_scratch_size m - dtms_scratch_ptr m \<ge> alloc_sz"

definition dtrace_inscratch :: "u64 \<Rightarrow> u64 \<Rightarrow> mach \<Rightarrow> bool" where
  "dtrace_inscratch dest sz m \<longleftrightarrow>
     \<not> dest < dtms_scratch_base m \<and> \<not> dest + sz < dest \<and> \<not> dest + sz > dtms_scratch_ptr m"

definition dtrace_canstore_statvar :: "u64 \<Rightarrow> u64 \<Rightarrow> dtrace_statvar option list \<Rightarrow> bool" where
  "dtrace_canstore_statvar addr sz svars \<longleftrightarrow>
     list_ex (\<lambda>sv. case sv of
         None \<Rightarrow> False
       | Some svar \<Rightarrow> dtsv_size svar \<noteq> 0 \<and> DTRACE_INRANGE addr sz (dtsv_data svar) (dtsv_size svar))
       svars"

text \<open>\<^verbatim>\<open>sizeof (dtrace_dynhash_t)\<close> and \<^verbatim>\<open>sizeof (dtrace_dynvar_t)\<close> on LP64.\<close>

definition sizeof_dynhash :: u64 where
  "sizeof_dynhash = 8 + 8 + 6 * 8"

definition sizeof_dynvar :: u64 where
  "sizeof_dynvar = 8 + 8 + 8 + (4 + 4 + (8 + 8))"

text \<open>A zero chunk size would divide by zero; the driver sets it before it sizes the space.\<close>

definition dtrace_canstore :: "u64 \<Rightarrow> u64 \<Rightarrow> mach \<Rightarrow> bool" where
  "dtrace_canstore addr sz m =
     (let d = dtvs_dynvars m in
      if DTRACE_INRANGE addr sz (dtms_scratch_base m) (dtms_scratch_size m) then True
      else if DTRACE_INRANGE addr sz (dtds_base d) (dtds_size d) then
        (let base = dtds_base d + dtds_hashsize d * sizeof_dynhash;
             chunkoffs = (addr - base) mod dtds_chunksize d
         in if addr < base then False
            else if chunkoffs < sizeof_dynvar then False
            else if chunkoffs + sz > dtds_chunksize d then False
            else True)
      else if dtrace_canstore_statvar addr sz (dtvs_locals m) then True
      else dtrace_canstore_statvar addr sz (dtvs_globals m))"

abbreviation (input) DTRACE_ACCESS_KERNEL :: u32 where "DTRACE_ACCESS_KERNEL \<equiv> 1"

definition dtrace_canload :: "u64 \<Rightarrow> u64 \<Rightarrow> mach \<Rightarrow> bool \<times> mach" where
  "dtrace_canload addr sz m =
     (if dtms_access m AND DTRACE_ACCESS_KERNEL \<noteq> 0 then (True, m)
      else if dtrace_canstore addr sz m then (True, m)
      else if DTRACE_INRANGE addr sz (dtdo_strtab (dtms_difo m)) (ucast (dtdo_strlen (dtms_difo m)))
      then (True, m)
      else (False, set_fault CPU_DTRACE_KPRIV addr m))"

section \<open>Strings and blocks through safe loads\<close>

text \<open>
  \<^verbatim>\<open>dtrace_strlen\<close> counts in a 32-bit \<^verbatim>\<open>uint_t\<close> against a 64-bit limit: with a limit of
  \<open>2 ^ 32\<close> or more only a NUL ends the loop.
\<close>

partial_function (option) strlen_loop :: "host \<Rightarrow> u64 \<Rightarrow> u64 \<Rightarrow> u32 \<Rightarrow> mach \<Rightarrow> (u64 \<times> mach) option" where
  [code]: "strlen_loop h lim s len m =
     (if ucast len = lim then Some (ucast len, m)
      else case dtrace_load h 1 s m of
          None \<Rightarrow> None
        | Some (c, m) \<Rightarrow> if c = 0 then Some (ucast len, m) else strlen_loop h lim (s + 1) (len + 1) m)"

definition dtrace_strlen :: "host \<Rightarrow> u64 \<Rightarrow> u64 \<Rightarrow> mach \<Rightarrow> (u64 \<times> mach) option" where
  "dtrace_strlen h s lim m = strlen_loop h lim s 0 m"

definition dtrace_strcanload :: "host \<Rightarrow> u64 \<Rightarrow> u64 \<Rightarrow> mach \<Rightarrow> (bool \<times> mach) option" where
  "dtrace_strcanload h addr sz m =
     (if dtms_access m AND DTRACE_ACCESS_KERNEL \<noteq> 0 then Some (True, m)
      else do {
        (len, m) \<leftarrow> dtrace_strlen h addr sz m;
        Some (dtrace_canload addr (1 + len) m)
      })"

definition dtrace_vcanload :: "host \<Rightarrow> u64 \<Rightarrow> dtrace_diftype \<Rightarrow> mach \<Rightarrow> (bool \<times> mach) option" where
  "dtrace_vcanload h src t m =
     (if \<not> DIF_TF_BYREF t then None
      else if dtms_access m AND DTRACE_ACCESS_KERNEL \<noteq> 0 then Some (True, m)
      else if unat (dtdt_kind t) = DIF_TYPE_STRING then do {
        (len, m) \<leftarrow> dtrace_strlen h src (h_strsize h) m;
        Some (dtrace_canload src (len + 1) m)
      }
      else Some (dtrace_canload src (ucast (dtdt_size t)) m))"

text \<open>
  The loops below run at most \<open>n\<close> times, \<open>n\<close> the value of their \<^verbatim>\<open>size_t\<close> counter. A NULL argument
  of \<^verbatim>\<open>dtrace_strncmp\<close> reads as the empty string.
\<close>

fun strncmp_loop :: "host \<Rightarrow> nat \<Rightarrow> u64 \<Rightarrow> u64 \<Rightarrow> mach \<Rightarrow> (int \<times> mach) option" where
  "strncmp_loop h 0 s1 s2 m = Some (0, m)"
| "strncmp_loop h (Suc limit) s1 s2 m = do {
     (c1, m) \<leftarrow> (if s1 = 0 then Some (0, m) else dtrace_load h 1 s1 m);
     (c2, m) \<leftarrow> (if s2 = 0 then Some (0, m) else dtrace_load h 1 s2 m);
     let s1 = (if s1 = 0 then 0 else s1 + 1);
     let s2 = (if s2 = 0 then 0 else s2 + 1);
     if c1 \<noteq> c2 then Some (uint c1 - uint c2, m)
     else if limit \<noteq> 0 \<and> c1 \<noteq> 0 \<and> \<not> cpu_fault m then strncmp_loop h limit s1 s2 m
     else Some (0, m)
   }"

definition dtrace_strncmp :: "host \<Rightarrow> u64 \<Rightarrow> u64 \<Rightarrow> u64 \<Rightarrow> mach \<Rightarrow> (int \<times> mach) option" where
  "dtrace_strncmp h s1 s2 limit m =
     (if s1 = s2 \<or> limit = 0 then Some (0, m) else strncmp_loop h (unat limit) s1 s2 m)"

fun dtrace_istoxic :: "(u64 \<times> u64) list \<Rightarrow> u64 \<Rightarrow> u64 \<Rightarrow> mach \<Rightarrow> bool \<times> mach" where
  "dtrace_istoxic [] kaddr sz m = (False, m)"
| "dtrace_istoxic ((taddr, limit) # rs) kaddr sz m =
     (let tsize = limit - taddr in
      if kaddr - taddr < tsize then (True, set_fault CPU_DTRACE_BADADDR kaddr m)
      else if taddr - kaddr < sz then (True, set_fault CPU_DTRACE_BADADDR taddr m)
      else dtrace_istoxic rs kaddr sz m)"

fun bcopy_fwd :: "host \<Rightarrow> nat \<Rightarrow> u64 \<Rightarrow> u64 \<Rightarrow> mach \<Rightarrow> mach option" where
  "bcopy_fwd h 0 s2 s1 m = Some m"
| "bcopy_fwd h (Suc len) s2 s1 m = do {
     (c, m) \<leftarrow> dtrace_load h 1 s2 m;
     bcopy_fwd h len (s2 + 1) (s1 + 1) (store 1 s1 c m)
   }"

fun bcopy_bwd :: "host \<Rightarrow> nat \<Rightarrow> u64 \<Rightarrow> u64 \<Rightarrow> mach \<Rightarrow> mach option" where
  "bcopy_bwd h 0 s2 s1 m = Some m"
| "bcopy_bwd h (Suc len) s2 s1 m = do {
     (c, m) \<leftarrow> dtrace_load h 1 (s2 - 1) m;
     bcopy_bwd h len (s2 - 1) (s1 - 1) (store 1 (s1 - 1) c m)
   }"

definition dtrace_bcopy :: "host \<Rightarrow> u64 \<Rightarrow> u64 \<Rightarrow> u64 \<Rightarrow> mach \<Rightarrow> mach option" where
  "dtrace_bcopy h src dst len m =
     (if len = 0 then Some m
      else if dst \<le> src then bcopy_fwd h (unat len) src dst m
      else bcopy_bwd h (unat len) (src + len) (dst + len) m)"

fun strcpy_loop :: "host \<Rightarrow> nat \<Rightarrow> u64 \<Rightarrow> u64 \<Rightarrow> mach \<Rightarrow> mach option" where
  "strcpy_loop h 0 s2 s1 m = Some m"
| "strcpy_loop h (Suc len) s2 s1 m = do {
     (c, m) \<leftarrow> dtrace_load h 1 s2 m;
     let m = store 1 s1 c m;
     if len \<noteq> 0 \<and> c \<noteq> 0 then strcpy_loop h len (s2 + 1) (s1 + 1) m else Some m
   }"

definition dtrace_strcpy :: "host \<Rightarrow> u64 \<Rightarrow> u64 \<Rightarrow> u64 \<Rightarrow> mach \<Rightarrow> mach option" where
  "dtrace_strcpy h src dst len m = (if len = 0 then Some m else strcpy_loop h (unat len) src dst m)"

definition dtrace_vcopy :: "host \<Rightarrow> u64 \<Rightarrow> u64 \<Rightarrow> dtrace_diftype \<Rightarrow> mach \<Rightarrow> mach option" where
  "dtrace_vcopy h src dst t m =
     (if \<not> DIF_TF_BYREF t then None
      else if unat (dtdt_kind t) = DIF_TYPE_STRING then dtrace_strcpy h src dst (ucast (dtdt_size t)) m
      else dtrace_bcopy h src dst (ucast (dtdt_size t)) m)"

fun bcmp_loop :: "host \<Rightarrow> nat \<Rightarrow> u64 \<Rightarrow> u64 \<Rightarrow> mach \<Rightarrow> (bool \<times> mach) option" where
  "bcmp_loop h 0 s1 s2 m = Some (False, m)"
| "bcmp_loop h (Suc len) s1 s2 m = do {
     (c, m) \<leftarrow> dtrace_load h 1 s1 m;
     if c \<noteq> ucast (mem m s2) then Some (True, m)
     else if len \<noteq> 0 \<and> \<not> cpu_fault m then bcmp_loop h len (s1 + 1) (s2 + 1) m
     else Some (False, m)
   }"

text \<open>The result is 1 (\<open>True\<close>) when the blocks differ.\<close>

definition dtrace_bcmp :: "host \<Rightarrow> u64 \<Rightarrow> u64 \<Rightarrow> u64 \<Rightarrow> mach \<Rightarrow> (bool \<times> mach) option" where
  "dtrace_bcmp h s1 s2 len m =
     (if s1 = s2 then Some (False, m)
      else if s1 = 0 \<or> s2 = 0 then Some (True, m)
      else bcmp_loop h (unat len) s1 s2 m)"

text \<open>\<^verbatim>\<open>dtrace_bzero\<close> takes its length as an \<^verbatim>\<open>int\<close>; a negative length writes nothing.\<close>

fun bzero_loop :: "nat \<Rightarrow> u64 \<Rightarrow> mach \<Rightarrow> mach" where
  "bzero_loop 0 d m = m"
| "bzero_loop (Suc len) d m = bzero_loop len (d + 1) (store 1 d 0 m)"

definition dtrace_bzero :: "u64 \<Rightarrow> u32 \<Rightarrow> mach \<Rightarrow> mach" where
  "dtrace_bzero dst len m = bzero_loop (nat (sint len)) dst m"

section \<open>An example machine\<close>

definition diftype0 :: dtrace_diftype where
  "diftype0 = \<lparr>dtdt_kind = 0, dtdt_ckind = 0, dtdt_flags = 0, dtdt_size = 8\<rparr>"

definition difo0 :: dtrace_difo where
  "difo0 = \<lparr>dtdo_buf = [], dtdo_inttab = [], dtdo_strtab = 0, dtdo_strlen = 0, dtdo_vartab = [],
     dtdo_rtype = diftype0, dtdo_refcnt = 0, dtdo_destructive = False\<rparr>"

definition mach0 :: mach where
  "mach0 = \<lparr>mem = (\<lambda>a. 0), cpuc_dtrace_flags = 0, cpuc_dtrace_illval = 0,
     dtms_scratch_base = 0x1000, dtms_scratch_ptr = 0x1000, dtms_scratch_size = 0x100,
     dtms_present = 0, dtms_fltoffs = 0, dtms_access = 0, dtms_difo = difo0,
     dtvs_globals = [], dtvs_tlocals = [], dtvs_locals = [],
     dtvs_dynvars = \<lparr>dtds_base = 0x2000, dtds_size = 0x1000, dtds_hashsize = 1, dtds_chunksize = 0x100\<rparr>,
     t_predcache = 0\<rparr>"

definition host0 :: host where
  "host0 = \<lparr>dtrace_toxrange = [], h_mapped = (\<lambda>a. a \<noteq> 0), h_nofault = True, h_strsize = 256,
     dtrace_strsize_default = 256, h_cpu = 0, h_thread_id = 1, h_intr_actv = 0, h_ncpu = 1,
     h_access_ok = (\<lambda>a n. False), h_userlimit = 0, h_fuword_nocheck = (\<lambda>n a m. (0, m)),
     dtrace_dif_variable = (\<lambda>v i m. Some (0, m)), dtrace_dif_subr = (\<lambda>s regs t n m. Some (None, m)),
     dtrace_dynvar = (\<lambda>k n oper m. Some (None, m))\<rparr>"

section \<open>Lemmas\<close>

lemma unat_diff64: "unat (a - b :: u64) = (if b \<le> a then unat a - unat b else 2 ^ 64 + unat a - unat b)"
proof (cases "b \<le> a")
  case True
  then show ?thesis by (simp add: unat_sub)
next
  case False
  then have "unat a < unat b" by (simp add: word_le_nat_alt)
  then show ?thesis
    using False unat_less_2p64 [of b]
    by (simp add: unat_sub_if_size word_size word_le_nat_alt)
qed

lemma unat_add64: "unat (a + b :: u64) = (if unat a + unat b < 2 ^ 64 then unat a + unat b else unat a + unat b - 2 ^ 64)"
  using unat_less_2p64 [of a] unat_less_2p64 [of b]
  by (simp add: unat_word_ariths le_mod_geq)

lemma inrange_iff:
  assumes "unat base + unat n \<le> 2 ^ 64"
  shows "DTRACE_INRANGE addr sz base n \<longleftrightarrow>
    unat base \<le> unat addr \<and> unat addr < unat base + unat n \<and>
    unat addr + unat sz \<le> unat base + unat n \<and> unat addr + unat sz < 2 ^ 64"
proof -
  have "addr - base < n \<longleftrightarrow> unat base \<le> unat addr \<and> unat addr < unat base + unat n"
    using assms unat_less_2p64 [of addr] unat_less_2p64 [of base] unat_less_2p64 [of n]
    by (auto simp: word_less_nat_alt unat_diff64 word_le_nat_alt)
  moreover have "addr \<le> addr + sz \<longleftrightarrow> unat addr + unat sz < 2 ^ 64"
    using unat_less_2p64 [of addr] unat_less_2p64 [of sz]
    by (auto simp: unat_add64 word_le_nat_alt)
  moreover have "addr + sz - base \<le> n \<longleftrightarrow> unat addr + unat sz \<le> unat base + unat n"
    if "unat base \<le> unat addr" "unat addr + unat sz < 2 ^ 64"
    using that assms by (auto simp: unat_diff64 unat_add64 word_le_nat_alt)
  ultimately show ?thesis
    by (auto simp: DTRACE_INRANGE_def)
qed

lemma canstore_dynvar_chunk:
  fixes m :: mach
  defines "d \<equiv> dtvs_dynvars m"
  defines "base \<equiv> unat (dtds_base d) + unat (dtds_hashsize d) * 64" and "cs \<equiv> unat (dtds_chunksize d)"
  assumes can: "dtrace_canstore addr sz m"
    and scr: "\<not> DTRACE_INRANGE addr sz (dtms_scratch_base m) (dtms_scratch_size m)"
    and dyn: "DTRACE_INRANGE addr sz (dtds_base d) (dtds_size d)"
    and sp: "unat (dtds_base d) + unat (dtds_size d) \<le> 2 ^ 64"
    and hash: "unat (dtds_hashsize d) * 64 < unat (dtds_size d)"
  shows "\<exists>k. base + k * cs + 48 \<le> unat addr \<and> unat addr + unat sz \<le> base + (k + 1) * cs"
proof -
  let ?b = "dtds_base d + dtds_hashsize d * sizeof_dynhash"
  have a: "unat addr + unat sz < 2 ^ 64" "unat addr < unat (dtds_base d) + unat (dtds_size d)"
    using dyn by (simp_all add: inrange_iff [OF sp])
  have h: "unat (dtds_hashsize d * sizeof_dynhash) = unat (dtds_hashsize d) * 64"
    using hash unat_less_2p64 [of "dtds_size d"]
    by (simp add: sizeof_dynhash_def unat_word_ariths)
  have le: "?b \<le> addr" and c48: "\<not> (addr - ?b) mod dtds_chunksize d < sizeof_dynvar"
    and fit: "\<not> dtds_chunksize d < (addr - ?b) mod dtds_chunksize d + sz"
    using can scr dyn by (auto simp: dtrace_canstore_def d_def Let_def not_less split: if_splits)
  have b: "unat ?b = base"
    using sp hash by (simp add: unat_add64 h base_def)
  have off: "unat ((addr - ?b) mod dtds_chunksize d) = (unat addr - base) mod cs"
    using le by (simp add: unat_mod unat_sub b cs_def)
  have le': "base \<le> unat addr" using le by (simp add: word_le_nat_alt b)
  have m: "(unat addr - base) mod cs \<le> unat addr - base" by (rule mod_less_eq_dividend)
  have "48 \<le> (unat addr - base) mod cs"
    using c48 by (simp add: word_less_nat_alt off sizeof_dynvar_def not_less)
  moreover have "(unat addr - base) mod cs + unat sz \<le> cs"
  proof -
    have "unat ((addr - ?b) mod dtds_chunksize d) + unat sz < 2 ^ 64"
      unfolding off using m a(1) le' by linarith
    then have "unat ((addr - ?b) mod dtds_chunksize d + sz) = (unat addr - base) mod cs + unat sz"
      by (simp only: unat_add64 off if_True)
    then show ?thesis using fit by (simp only: word_less_nat_alt cs_def not_less)
  qed
  moreover have "unat addr = base + (unat addr - base) div cs * cs + (unat addr - base) mod cs"
    using le' by (simp add: div_mult_mod_eq)
  moreover have "((unat addr - base) div cs + 1) * cs = (unat addr - base) div cs * cs + cs"
    by (simp add: algebra_simps)
  ultimately show ?thesis
    by (intro exI [of _ "(unat addr - base) div cs"] conjI) linarith+
qed

definition quiet :: "mach \<Rightarrow> bool" where
  "quiet m \<longleftrightarrow> cpuc_dtrace_flags m AND (CPU_DTRACE_FAULT OR CPU_DTRACE_NOFAULT) = 0"

definition readable :: "host \<Rightarrow> u64 \<Rightarrow> bool" where
  "readable h a \<longleftrightarrow> \<not> in_toxrange h a 1 \<and> h_mapped h a"

definition mem_copy :: "(u64 \<Rightarrow> u8) \<Rightarrow> u64 \<Rightarrow> u64 \<Rightarrow> nat \<Rightarrow> u64 \<Rightarrow> u8" where
  "mem_copy b src dst n a = (if unat (a - dst) < n then b (src + (a - dst)) else b a)"

lemma quiet_flags:
  assumes "quiet m"
  shows "(cpuc_dtrace_flags m OR 1) AND NOT 1 = cpuc_dtrace_flags m" "\<not> cpu_fault m"
proof -
  have *: "cpuc_dtrace_flags m AND 0x13FD = 0"
    using assms by (simp add: quiet_def CPU_DTRACE_FAULT_def)
  have "cpuc_dtrace_flags m AND 1 = (cpuc_dtrace_flags m AND 0x13FD) AND 1"
    by (simp add: and.assoc)
  then have "cpuc_dtrace_flags m AND 1 = 0" by (simp add: *)
  then show "(cpuc_dtrace_flags m OR 1) AND NOT 1 = cpuc_dtrace_flags m"
    by (metis (no_types, opaque_lifting) and.commute and.left_commute bit.conj_cancel_right
        bit.conj_disj_distrib2 bit.conj_zero_right bit.disj_cancel_right or.right_neutral and_eq_not_not_or or_eq_not_not_and)
  have "cpuc_dtrace_flags m AND 0x13FC = (cpuc_dtrace_flags m AND 0x13FD) AND 0x13FC"
    by (simp add: and.assoc)
  then show "\<not> cpu_fault m" by (simp add: cpu_fault_def CPU_DTRACE_FAULT_def *)
qed

lemma load_byte:
  assumes "quiet m" "readable h a"
  shows "dtrace_load h (Suc 0) a m = Some (ucast (mem m a), m)"
  using assms quiet_flags [OF assms(1)]
  by (simp add: dtrace_load_def readable_def DTRACE_CPUFLAG_SET_def DTRACE_CPUFLAG_CLEAR_def Let_def)

lemma quiet_store [simp]: "quiet (store n a v m) = quiet m"
  by (simp add: quiet_def store_def)

lemma ucast_u8_u64 [simp]: "ucast (ucast c :: u64) = (c :: u8)"
  by (rule bit_eqI) (simp add: bit_simps)

lemma ucast_u8_eq_0 [simp]: "(ucast c :: u64) = 0 \<longleftrightarrow> (c :: u8) = 0"
  by (metis ucast_u8_u64 unsigned_0)

lemma store_1: "store (Suc 0) a (ucast (c :: u8)) m = m\<lparr>mem := (mem m)(a := c)\<rparr>"
  by (simp add: store_def)

lemma mem_copy_0 [simp]: "mem_copy b src dst 0 = b"
  by (simp add: mem_copy_def fun_eq_iff)

lemma mem_copy_Suc_fwd:
  assumes "dst \<le> src" "unat src + Suc n \<le> 2 ^ 64"
  shows "mem_copy (b(dst := b src)) (src + 1) (dst + 1) n = mem_copy b src dst (Suc n)"
proof
  fix a
  show "mem_copy (b(dst := b src)) (src + 1) (dst + 1) n a = mem_copy b src dst (Suc n) a"
  proof (cases "a = dst")
    case True
    have "unat (- 1 :: u64) = 2 ^ 64 - 1"
      by (simp add: unsigned_minus_1_eq_mask mask_eq_exp_minus_1)
    then show ?thesis using True assms by (simp add: mem_copy_def)
  next
    case False
    define k where "k = a - dst"
    have a: "a = dst + k" "k \<noteq> 0" using False by (simp_all add: k_def)
    then have k: "unat (k - 1) = unat k - 1" "0 < unat k"
      by (simp_all add: unat_minus_one unat_gt_0)
    have "src + k \<noteq> dst" if "unat k < Suc n"
    proof -
      have "unat (src + k) = unat src + unat k"
        using that assms(2) by (simp add: unat_add64)
      moreover have "unat dst \<le> unat src" using assms(1) by (simp add: word_le_nat_alt)
      ultimately show ?thesis using k(2) by auto
    qed
    then show ?thesis
      using k a(2) by (auto simp: mem_copy_def a(1) algebra_simps)
  qed
qed

lemma bcopy_fwd_mem:
  assumes "quiet m" "dst \<le> src" "unat src + n \<le> 2 ^ 64" "\<And>i. i < n \<Longrightarrow> readable h (src + of_nat i)"
  shows "bcopy_fwd h n src dst m = Some (m\<lparr>mem := mem_copy (mem m) src dst n\<rparr>)"
  using assms
proof (induction n arbitrary: src dst m)
  case 0
  then show ?case by simp
next
  case (Suc n)
  let ?m = "m\<lparr>mem := (mem m)(dst := mem m src)\<rparr>"
  have "readable h src" using Suc.prems(4) [of 0] by simp
  then have s: "bcopy_fwd h (Suc n) src dst m = bcopy_fwd h n (src + 1) (dst + 1) ?m"
    using load_byte [OF Suc.prems(1)] by (simp add: store_1)
  show ?case
  proof (cases "n = 0")
    case True
    have "mem_copy ((mem m)(dst := mem m src)) (src + 1) (dst + 1) n = mem_copy (mem m) src dst (Suc n)"
      by (rule mem_copy_Suc_fwd [OF Suc.prems(2,3)])
    then show ?thesis unfolding s by (simp add: True)
  next
    case False
    have "quiet ?m" using Suc.prems(1) by (simp add: quiet_def)
    moreover have "dst + 1 \<le> src + 1" "unat (src + 1) + n \<le> 2 ^ 64"
      using Suc.prems(2,3) False by (simp_all add: word_le_nat_alt unat_add64)
    moreover have "readable h (src + 1 + of_nat i)" if "i < n" for i
      using Suc.prems(4) [of "Suc i"] that by (simp add: ac_simps)
    ultimately have "bcopy_fwd h n (src + 1) (dst + 1) ?m
        = Some (?m\<lparr>mem := mem_copy (mem ?m) (src + 1) (dst + 1) n\<rparr>)"
      by (rule Suc.IH)
    then show ?thesis using s mem_copy_Suc_fwd [OF Suc.prems(2,3)] by simp
  qed
qed

lemma mem_copy_Suc_bwd:
  assumes "src < dst" "unat dst + Suc n \<le> 2 ^ 64"
  shows "mem_copy (b(dst + of_nat n := b (src + of_nat n))) src dst n = mem_copy b src dst (Suc n)"
proof
  fix a
  have n: "unat (of_nat n :: u64) = n" using assms(2) by (simp add: unat_of_nat)
  show "mem_copy (b(dst + of_nat n := b (src + of_nat n))) src dst n a = mem_copy b src dst (Suc n) a"
  proof (cases "unat (a - dst) = n")
    case True
    then have "a - dst = of_nat n" by (metis n word_unat_eq_iff)
    then have "a = dst + of_nat n" by (simp add: algebra_simps)
    then show ?thesis by (simp add: mem_copy_def n)
  next
    case False
    have "src + (a - dst) \<noteq> dst + of_nat n" if "unat (a - dst) < n"
    proof -
      have "unat (src + (a - dst)) < unat (dst + of_nat n)"
        using that assms n by (simp add: unat_add64 word_less_nat_alt)
      then show ?thesis by (metis less_irrefl)
    qed
    then show ?thesis using False n by (auto simp: mem_copy_def)
  qed
qed

lemma bcopy_bwd_mem:
  assumes "quiet m" "src < dst" "unat dst + n \<le> 2 ^ 64" "\<And>i. i < n \<Longrightarrow> readable h (src + of_nat i)"
  shows "bcopy_bwd h n (src + of_nat n) (dst + of_nat n) m = Some (m\<lparr>mem := mem_copy (mem m) src dst n\<rparr>)"
  using assms
proof (induction n arbitrary: m)
  case 0
  then show ?case by simp
next
  case (Suc n)
  let ?m = "m\<lparr>mem := (mem m)(dst + of_nat n := mem m (src + of_nat n))\<rparr>"
  have "readable h (src + of_nat n)" using Suc.prems(4) [of n] by simp
  then have "bcopy_bwd h (Suc n) (src + of_nat (Suc n)) (dst + of_nat (Suc n)) m
      = bcopy_bwd h n (src + of_nat n) (dst + of_nat n) ?m"
    using load_byte [OF Suc.prems(1)] by (simp add: store_1)
  also have "\<dots> = Some (?m\<lparr>mem := mem_copy (mem ?m) src dst n\<rparr>)"
    using Suc.prems by (intro Suc.IH) (auto simp: quiet_def)
  finally show ?case using mem_copy_Suc_bwd [OF Suc.prems(2,3), of "mem m"] by simp
qed

lemma dtrace_bcopy_mem:
  assumes "quiet m" "unat src + unat len \<le> 2 ^ 64" "unat dst + unat len \<le> 2 ^ 64"
    and "\<And>i. i < unat len \<Longrightarrow> readable h (src + of_nat i)"
  shows "dtrace_bcopy h src dst len m = Some (m\<lparr>mem := mem_copy (mem m) src dst (unat len)\<rparr>)"
  using assms bcopy_fwd_mem [OF assms(1) _ assms(2,4), of dst]
    bcopy_bwd_mem [OF assms(1) _ assms(3,4)]
  by (auto simp: dtrace_bcopy_def not_le)

text \<open>The C string at an address, read up to a limit.\<close>

definition cstr_at :: "(u64 \<Rightarrow> u8) \<Rightarrow> u64 \<Rightarrow> nat \<Rightarrow> cstr" where
  "cstr_at b s n = takeWhile (\<lambda>c. c \<noteq> 0) (map (\<lambda>i. b (s + of_nat i)) [0..<n])"

lemma cstr_at_0 [simp]: "cstr_at b s 0 = []"
  by (simp add: cstr_at_def)

lemma cstr_at_Suc [simp]:
  "cstr_at b s (Suc n) = (if b s = 0 then [] else b s # cstr_at b (s + 1) n)"
proof -
  have "map (\<lambda>i. b (s + of_nat i)) [0..<Suc n] = b s # map (\<lambda>i. b (s + 1 + of_nat i)) [0..<n]"
    by (subst upt_conv_Cons) (auto simp: map_Suc_upt [symmetric] comp_def add.assoc simp del: upt_Suc)
  then show ?thesis by (simp add: cstr_at_def del: upt_Suc)
qed

lemma cstr_at_le: "length (cstr_at b s n) \<le> n"
  using length_takeWhile_le [of "\<lambda>c. c \<noteq> 0" "map (\<lambda>i. b (s + of_nat i)) [0..<n]"]
  by (simp add: cstr_at_def)

lemma ucast_of_nat_u32: "j < 2 ^ 32 \<Longrightarrow> ucast (of_nat j :: u32) = (of_nat j :: u64)"
  by (simp add: unsigned_of_nat take_bit_nat_eq_self)

lemma strlen_loop_mem:
  assumes "quiet m" "unat lim < 2 ^ 32" "unat lim = j + n"
    and "\<And>i. i < n \<Longrightarrow> i \<le> length (cstr_at (mem m) s n) \<Longrightarrow> readable h (s + of_nat i)"
  shows "strlen_loop h lim s (of_nat j) m = Some (of_nat (j + length (cstr_at (mem m) s n)), m)"
  using assms
proof (induction n arbitrary: j s)
  case 0
  then have "ucast (of_nat j :: u32) = (of_nat j :: u64)" "of_nat j = lim"
    by (auto simp: ucast_of_nat_u32 word_unat_eq_iff unat_of_nat)
  then show ?case by (subst strlen_loop.simps) simp
next
  case (Suc n)
  have ne: "of_nat j \<noteq> lim" "ucast (of_nat j :: u32) = (of_nat j :: u64)"
    using Suc.prems(2,3) by (auto simp: ucast_of_nat_u32 word_unat_eq_iff unat_of_nat)
  have "readable h s" using Suc.prems(4) [of 0] by simp
  then have ld: "dtrace_load h 1 s m = Some (ucast (mem m s), m)"
    using load_byte [OF Suc.prems(1)] by simp
  show ?case
  proof (cases "mem m s = 0")
    case True
    then show ?thesis
      using ne ld by (subst strlen_loop.simps) simp
  next
    case False
    have "strlen_loop h lim (s + 1) (of_nat (Suc j)) m
        = Some (of_nat (Suc j + length (cstr_at (mem m) (s + 1) n)), m)"
    proof (rule Suc.IH)
      fix i assume "i < n" "i \<le> length (cstr_at (mem m) (s + 1) n)"
      then show "readable h (s + 1 + of_nat i)"
        using Suc.prems(4) [of "Suc i"] False by (simp add: ac_simps)
    qed (use Suc.prems in auto)
    then show ?thesis
      using ne ld False by (subst strlen_loop.simps) (simp add: ac_simps)
  qed
qed

lemma uint_ucast_u8 [simp]: "uint (ucast (x :: u8) :: u64) = uint x"
  by (simp add: unsigned_ucast_eq take_bit_int_eq_self_iff less_trans [OF uint_lt2p])

lemma strncmp_loop_mem:
  assumes "quiet m" "0 < n" "0 < unat s1" "unat s1 + n \<le> 2 ^ 64" "0 < unat s2" "unat s2 + n \<le> 2 ^ 64"
    and "\<And>i. i < n \<Longrightarrow> readable h (s1 + of_nat i)" "\<And>i. i < n \<Longrightarrow> readable h (s2 + of_nat i)"
  shows "\<exists>r. strncmp_loop h n s1 s2 m = Some (r, m) \<and>
    (r = 0 \<longleftrightarrow> cstr_at (mem m) s1 n = cstr_at (mem m) s2 n)"
  using assms
proof (induction n arbitrary: s1 s2)
  case (Suc n)
  have nz: "s1 \<noteq> 0" "s2 \<noteq> 0" using Suc.prems(3,5) by auto
  have ld: "dtrace_load h (Suc 0) s1 m = Some (ucast (mem m s1), m)"
    "dtrace_load h (Suc 0) s2 m = Some (ucast (mem m s2), m)"
    using Suc.prems(7,8) [of 0] load_byte [OF Suc.prems(1)] by auto
  have inj: "(ucast (mem m s1) :: u64) = ucast (mem m s2) \<longleftrightarrow> mem m s1 = mem m s2"
    by (metis ucast_u8_u64)
  have nf: "\<not> cpu_fault m" by (rule quiet_flags(2) [OF Suc.prems(1)])
  show ?case
  proof (cases "mem m s1 = mem m s2 \<and> mem m s1 \<noteq> 0 \<and> n \<noteq> 0")
    case True
    have "\<exists>r. strncmp_loop h n (s1 + 1) (s2 + 1) m = Some (r, m) \<and>
        (r = 0 \<longleftrightarrow> cstr_at (mem m) (s1 + 1) n = cstr_at (mem m) (s2 + 1) n)"
    proof (rule Suc.IH)
      fix i assume "i < n"
      then show "readable h (s1 + 1 + of_nat i)" "readable h (s2 + 1 + of_nat i)"
        using Suc.prems(7,8) [of "Suc i"] by (simp_all add: ac_simps)
    qed (use Suc.prems True in \<open>auto simp: unat_add64\<close>)
    then show ?thesis using True nz ld nf by auto
  next
    case False
    then show ?thesis
      using nz ld inj nf by (auto simp: uint_0_iff word_uint_eq_iff [symmetric])
  qed
qed simp

section \<open>Properties\<close>

text \<open>
  \<^bold>\<open>C21.\<close> \<^verbatim>\<open>DTRACE_INRANGE\<close> is exact: for a region that does not wrap around the address space it
  accepts a range exactly when the range starts inside the region, ends inside it, and does not
  itself wrap.
\<close>

theorem DTRACE_INRANGE_exact:
  assumes "unat base + unat n \<le> 2 ^ 64"
  shows "DTRACE_INRANGE addr sz base n \<longleftrightarrow>
    unat base \<le> unat addr \<and> unat addr < unat base + unat n \<and>
    unat addr + unat sz \<le> unat base + unat n \<and> unat addr + unat sz < 2 ^ 64"
  using assms by (rule inrange_iff)

theorem DTRACE_INRANGE_exact_witness:
  "\<not> DTRACE_INRANGE 0x1008 (- 4) 0x1000 0x100"
  using DTRACE_INRANGE_exact [of "0x1000" "0x100" "0x1008" "- 4"] by simp

text \<open>
  \<^bold>\<open>C19.\<close> A store that \<^verbatim>\<open>dtrace_canstore\<close> allows in the dynamic variable space never touches its
  metadata: it lies above the hash table, inside one chunk, and beyond that chunk's
  \<^verbatim>\<open>dtrace_dynvar_t\<close> header.
\<close>

theorem dtrace_canstore_excludes_metadata:
  fixes m :: mach
  defines "d \<equiv> dtvs_dynvars m"
  defines "base \<equiv> unat (dtds_base d) + unat (dtds_hashsize d) * 64" and "cs \<equiv> unat (dtds_chunksize d)"
  assumes "dtrace_canstore addr sz m"
    and "\<not> DTRACE_INRANGE addr sz (dtms_scratch_base m) (dtms_scratch_size m)"
    and "DTRACE_INRANGE addr sz (dtds_base d) (dtds_size d)"
    and "unat (dtds_base d) + unat (dtds_size d) \<le> 2 ^ 64"
    and "unat (dtds_hashsize d) * 64 < unat (dtds_size d)"
  shows "\<exists>k. base + k * cs + 48 \<le> unat addr \<and> unat addr + unat sz \<le> base + (k + 1) * cs"
  unfolding base_def cs_def d_def
  by (rule canstore_dynvar_chunk) (use assms in \<open>simp_all add: d_def\<close>)

theorem dtrace_canstore_excludes_metadata_witness:
  "\<exists>k. (0x2040 :: nat) + k * 0x100 + 48 \<le> 0x2070 \<and> 0x2070 + 8 \<le> (0x2040 :: nat) + (k + 1) * 0x100"
  using dtrace_canstore_excludes_metadata [of "0x2070" 8 mach0]
  by (simp add: mach0_def dtrace_canstore_def DTRACE_INRANGE_def sizeof_dynhash_def sizeof_dynvar_def)

text \<open>
  \<^bold>\<open>C20.\<close> \<^verbatim>\<open>dtrace_bcopy\<close> is \<^verbatim>\<open>memmove\<close>: whether or not source and destination overlap, afterwards
  the destination holds what the source held before, and no other byte has changed.
\<close>

theorem dtrace_bcopy_memmove:
  assumes "quiet m" "unat src + unat len \<le> 2 ^ 64" "unat dst + unat len \<le> 2 ^ 64"
    and "\<And>i. i < unat len \<Longrightarrow> readable h (src + of_nat i)"
  shows "dtrace_bcopy h src dst len m = Some (m\<lparr>mem := mem_copy (mem m) src dst (unat len)\<rparr>)"
  using assms by (rule dtrace_bcopy_mem)

theorem dtrace_bcopy_memmove_witness:
  "dtrace_bcopy host0 0x1000 0x1001 2 mach0 = Some (mach0\<lparr>mem := mem_copy (mem mach0) 0x1000 0x1001 2\<rparr>)"
proof -
  have "readable host0 (0x1000 + of_nat i)" if "i < unat (2 :: u64)" for i
  proof -
    have "i = 0 \<or> i = 1" using that by auto
    then show ?thesis by (auto simp: readable_def in_toxrange_def host0_def)
  qed
  then show ?thesis
    using dtrace_bcopy_memmove [of mach0 "0x1000" 2 "0x1001" host0]
    by (simp add: quiet_def mach0_def)
qed

text \<open>
  \<^bold>\<open>C22.\<close> \<^verbatim>\<open>dtrace_strlen\<close> returns, for every limit below \<open>2 ^ 32\<close>, the length of the string at the
  address cut off at the limit, and changes nothing, when the string's bytes are readable.
\<close>

theorem dtrace_strlen_correct:
  assumes "quiet m" "unat lim < 2 ^ 32"
    and "\<And>i. i < unat lim \<Longrightarrow> i \<le> length (cstr_at (mem m) s (unat lim)) \<Longrightarrow> readable h (s + of_nat i)"
  shows "dtrace_strlen h s lim m = Some (of_nat (length (cstr_at (mem m) s (unat lim))), m)"
  using strlen_loop_mem [of m lim 0 "unat lim" s h] assms by (simp add: dtrace_strlen_def)

theorem dtrace_strlen_correct_witness:
  "dtrace_strlen host0 0x1000 256 mach0 = Some (0, mach0)"
proof -
  have "cstr_at (mem mach0) 0x1000 (unat (256 :: u64)) = []"
    by (simp add: mach0_def cstr_at_def takeWhile_eq_Nil_iff hd_map)
  then show ?thesis
    using dtrace_strlen_correct [of mach0 256 "0x1000" host0]
    by (simp add: quiet_def mach0_def readable_def in_toxrange_def host0_def)
qed

text \<open>
  \<^bold>\<open>C23.\<close> \<^verbatim>\<open>dtrace_strncmp\<close> of two readable strings returns 0 exactly when they agree up to the limit,
  and changes nothing.
\<close>

theorem dtrace_strncmp_zero_iff:
  assumes "quiet m" "0 < unat s1" "unat s1 + unat limit \<le> 2 ^ 64" "0 < unat s2"
    and "unat s2 + unat limit \<le> 2 ^ 64"
    and "\<And>i. i < unat limit \<Longrightarrow> readable h (s1 + of_nat i)"
    and "\<And>i. i < unat limit \<Longrightarrow> readable h (s2 + of_nat i)"
  shows "\<exists>r. dtrace_strncmp h s1 s2 limit m = Some (r, m) \<and>
    (r = 0 \<longleftrightarrow> cstr_at (mem m) s1 (unat limit) = cstr_at (mem m) s2 (unat limit))"
proof (cases "s1 = s2 \<or> limit = 0")
  case False
  then have "0 < unat limit" by (simp add: unat_gt_0)
  with False show ?thesis
    using strncmp_loop_mem [of m "unat limit" s1 s2 h] assms by (simp add: dtrace_strncmp_def)
qed (auto simp: dtrace_strncmp_def)

theorem dtrace_strncmp_zero_iff_witness:
  "\<exists>r. dtrace_strncmp host0 0x1000 0x1010 2 mach0 = Some (r, mach0) \<and>
     (r = 0 \<longleftrightarrow> cstr_at (mem mach0) 0x1000 2 = cstr_at (mem mach0) 0x1010 2)"
proof -
  have "readable host0 (0x1000 + of_nat i)" "readable host0 (0x1010 + of_nat i)"
    if "i < unat (2 :: u64)" for i
  proof -
    have "i = 0 \<or> i = 1" using that by auto
    then show "readable host0 (0x1000 + of_nat i)" "readable host0 (0x1010 + of_nat i)"
      by (auto simp: readable_def in_toxrange_def host0_def)
  qed
  then show ?thesis
    using dtrace_strncmp_zero_iff [of mach0 "0x1000" 2 "0x1010" host0]
    by (simp add: quiet_def mach0_def)
qed

end
