(* ===== verification/DT_Emulate.thy ===== *)
theory DT_Emulate
  imports DT_Memory
begin

text \<open>
  The DIF emulator \<^verbatim>\<open>dtrace_dif_emulate\<close> of \<^verbatim>\<open>driver/dtrace.c\<close>: one definition per group of
  opcodes, the dispatch of its \<^verbatim>\<open>switch\<close>, and the loop. \<open>None\<close> is what C leaves undefined or what stops
  the kernel: an access outside \<^verbatim>\<open>regs[]\<close>, \<^verbatim>\<open>tupregs[]\<close> or a table, a NULL variable, a failed
  \<^verbatim>\<open>ASSERT\<close>, a trapping division, an unresumed page fault.
\<close>

section \<open>Registers\<close>

record emu =
  regs :: "u64 list"
  tupregs :: "dtrace_key list"
  ttop :: nat
  cc_n :: bool
  cc_z :: bool
  cc_v :: bool
  cc_c :: bool
  pc :: nat
  opc :: nat
  rval :: u64
  mach :: mach

definition rget :: "emu \<Rightarrow> nat \<Rightarrow> u64 option" where
  "rget e r = (if r < length (regs e) then Some (regs e ! r) else None)"

definition rset :: "emu \<Rightarrow> nat \<Rightarrow> u64 \<Rightarrow> emu option" where
  "rset e r v = (if r < length (regs e) then Some (e\<lparr>regs := (regs e)[r := v]\<rparr>) else None)"

definition tset :: "emu \<Rightarrow> nat \<Rightarrow> dtrace_key \<Rightarrow> emu option" where
  "tset e i k = (if i < length (tupregs e) then Some (e\<lparr>tupregs := (tupregs e)[i := k]\<rparr>) else None)"

definition emu_fault :: "u16 \<Rightarrow> u64 \<Rightarrow> emu \<Rightarrow> emu" where
  "emu_fault f a e = e\<lparr>mach := set_fault f a (mach e)\<rparr>"

definition emu_flag :: "u16 \<Rightarrow> emu \<Rightarrow> emu" where
  "emu_flag f e = e\<lparr>mach := DTRACE_CPUFLAG_SET f (mach e)\<rparr>"

section \<open>Arithmetic, comparison and branches\<close>

text \<open>The value for the destination register and the fault flags to raise.\<close>

definition dif_alu :: "dif_op \<Rightarrow> u64 \<Rightarrow> u64 \<Rightarrow> (u64 \<times> u16) option" where
  "dif_alu op x y =
     (case op of
        DIF_OP_OR \<Rightarrow> Some (x OR y, 0)
      | DIF_OP_XOR \<Rightarrow> Some (x XOR y, 0)
      | DIF_OP_AND \<Rightarrow> Some (x AND y, 0)
      | DIF_OP_SLL \<Rightarrow> if unat y < 64 then Some (shl64 x (unat y), 0) else None
      | DIF_OP_SRL \<Rightarrow> if unat y < 64 then Some (shr64 x (unat y), 0) else None
      | DIF_OP_SRA \<Rightarrow> if unat y < 64 then Some (sar64 x (unat y), 0) else None
      | DIF_OP_SUB \<Rightarrow> Some (x - y, 0)
      | DIF_OP_ADD \<Rightarrow> Some (x + y, 0)
      | DIF_OP_MUL \<Rightarrow> Some (x * y, 0)
      | DIF_OP_SDIV \<Rightarrow> if y = 0 then Some (0, CPU_DTRACE_DIVZERO) else map_option (\<lambda>q. (q, 0)) (sdiv64 x y)
      | DIF_OP_UDIV \<Rightarrow> if y = 0 then Some (0, CPU_DTRACE_DIVZERO) else Some (x div y, 0)
      | DIF_OP_SREM \<Rightarrow> if y = 0 then Some (0, CPU_DTRACE_DIVZERO) else map_option (\<lambda>q. (q, 0)) (srem64 x y)
      | DIF_OP_UREM \<Rightarrow> if y = 0 then Some (0, CPU_DTRACE_DIVZERO) else Some (x mod y, 0)
      | _ \<Rightarrow> None)"

definition exec_alu :: "dif_op \<Rightarrow> nat \<Rightarrow> nat \<Rightarrow> nat \<Rightarrow> emu \<Rightarrow> emu option" where
  "exec_alu op r1 r2 rd e = do {
     x \<leftarrow> rget e r1;
     y \<leftarrow> rget e r2;
     (v, f) \<leftarrow> dif_alu op x y;
     rset (emu_flag f e) rd v
   }"

definition exec_not :: "nat \<Rightarrow> nat \<Rightarrow> emu \<Rightarrow> emu option" where
  "exec_not r1 rd e = do { x \<leftarrow> rget e r1; rset e rd (NOT x) }"

definition exec_mov :: "nat \<Rightarrow> nat \<Rightarrow> emu \<Rightarrow> emu option" where
  "exec_mov r1 rd e = do { x \<leftarrow> rget e r1; rset e rd x }"

definition exec_cmp :: "nat \<Rightarrow> nat \<Rightarrow> emu \<Rightarrow> emu option" where
  "exec_cmp r1 r2 e = do {
     x \<leftarrow> rget e r1;
     y \<leftarrow> rget e r2;
     let cc_r = sint (x - y);
     Some (e\<lparr>cc_n := cc_r < 0, cc_z := cc_r = 0, cc_v := False, cc_c := x < y\<rparr>)
   }"

definition exec_tst :: "nat \<Rightarrow> emu \<Rightarrow> emu option" where
  "exec_tst r1 e = do {
     x \<leftarrow> rget e r1;
     Some (e\<lparr>cc_n := False, cc_v := False, cc_c := False, cc_z := x = 0\<rparr>)
   }"

definition dif_branch :: "dif_op \<Rightarrow> emu \<Rightarrow> bool" where
  "dif_branch op e =
     (case op of
        DIF_OP_BA \<Rightarrow> True
      | DIF_OP_BE \<Rightarrow> cc_z e
      | DIF_OP_BNE \<Rightarrow> \<not> cc_z e
      | DIF_OP_BG \<Rightarrow> \<not> (cc_z e \<or> cc_n e \<noteq> cc_v e)
      | DIF_OP_BGU \<Rightarrow> \<not> (cc_c e \<or> cc_z e)
      | DIF_OP_BGE \<Rightarrow> \<not> (cc_n e \<noteq> cc_v e)
      | DIF_OP_BGEU \<Rightarrow> \<not> cc_c e
      | DIF_OP_BL \<Rightarrow> cc_n e \<noteq> cc_v e
      | DIF_OP_BLU \<Rightarrow> cc_c e
      | DIF_OP_BLE \<Rightarrow> cc_z e \<or> cc_n e \<noteq> cc_v e
      | DIF_OP_BLEU \<Rightarrow> cc_c e \<or> cc_z e
      | _ \<Rightarrow> False)"

definition exec_branch :: "dif_op \<Rightarrow> dif_instr \<Rightarrow> emu \<Rightarrow> emu" where
  "exec_branch op instr e = (if dif_branch op e then e\<lparr>pc := DIF_INSTR_LABEL instr\<rparr> else e)"

section \<open>Loads and stores\<close>

text \<open>Whether a load is restricted, whether it sign-extends, and its size.\<close>

definition dif_load_op :: "dif_op \<Rightarrow> bool \<times> bool \<times> nat" where
  "dif_load_op op =
     (case op of
        DIF_OP_LDSB \<Rightarrow> (False, True, 1)
      | DIF_OP_LDSH \<Rightarrow> (False, True, 2)
      | DIF_OP_LDSW \<Rightarrow> (False, True, 4)
      | DIF_OP_LDUB \<Rightarrow> (False, False, 1)
      | DIF_OP_LDUH \<Rightarrow> (False, False, 2)
      | DIF_OP_LDUW \<Rightarrow> (False, False, 4)
      | DIF_OP_RLDSB \<Rightarrow> (True, True, 1)
      | DIF_OP_RLDSH \<Rightarrow> (True, True, 2)
      | DIF_OP_RLDSW \<Rightarrow> (True, True, 4)
      | DIF_OP_RLDUB \<Rightarrow> (True, False, 1)
      | DIF_OP_RLDUH \<Rightarrow> (True, False, 2)
      | DIF_OP_RLDUW \<Rightarrow> (True, False, 4)
      | DIF_OP_RLDX \<Rightarrow> (True, False, 8)
      | _ \<Rightarrow> (False, False, 8))"

text \<open>The conversion through \<^verbatim>\<open>int8_t\<close>, \<^verbatim>\<open>int16_t\<close> or \<^verbatim>\<open>int32_t\<close>.\<close>

definition sext :: "nat \<Rightarrow> u64 \<Rightarrow> u64" where
  "sext n v = signed_take_bit (8 * n - 1) v"

definition exec_load :: "host \<Rightarrow> dif_op \<Rightarrow> nat \<Rightarrow> nat \<Rightarrow> emu \<Rightarrow> emu option" where
  "exec_load h op r1 rd e =
     (let (restricted, signed, n) = dif_load_op op in do {
        a \<leftarrow> rget e r1;
        if restricted \<and> \<not> dtrace_canstore a (of_nat n) (mach e) then Some (emu_fault CPU_DTRACE_KPRIV a e)
        else do {
          (v, m) \<leftarrow> dtrace_load h n a (mach e);
          rset (e\<lparr>mach := m\<rparr>) rd (if signed then sext n v else v)
        }
      })"

definition dtrace_fuword :: "host \<Rightarrow> nat \<Rightarrow> u64 \<Rightarrow> mach \<Rightarrow> u64 \<times> mach" where
  "dtrace_fuword h n uaddr m =
     (if (if n \<le> 2 then \<not> h_access_ok h uaddr n else h_userlimit h \<le> uaddr)
      then (0, set_fault CPU_DTRACE_BADADDR uaddr m)
      else h_fuword_nocheck h n uaddr m)"

definition dif_uload_op :: "dif_op \<Rightarrow> bool \<times> nat" where
  "dif_uload_op op =
     (case op of
        DIF_OP_ULDSB \<Rightarrow> (True, 1)
      | DIF_OP_ULDSH \<Rightarrow> (True, 2)
      | DIF_OP_ULDSW \<Rightarrow> (True, 4)
      | DIF_OP_ULDUB \<Rightarrow> (False, 1)
      | DIF_OP_ULDUH \<Rightarrow> (False, 2)
      | DIF_OP_ULDUW \<Rightarrow> (False, 4)
      | _ \<Rightarrow> (False, 8))"

definition exec_uload :: "host \<Rightarrow> dif_op \<Rightarrow> nat \<Rightarrow> nat \<Rightarrow> emu \<Rightarrow> emu option" where
  "exec_uload h op r1 rd e =
     (let (signed, n) = dif_uload_op op in do {
        a \<leftarrow> rget e r1;
        let (v, m) = dtrace_fuword h n a (mach e);
        rset (e\<lparr>mach := m\<rparr>) rd (if signed then sext n v else v)
      })"

definition exec_store :: "nat \<Rightarrow> nat \<Rightarrow> nat \<Rightarrow> emu \<Rightarrow> emu option" where
  "exec_store n r1 rd e = do {
     v \<leftarrow> rget e r1;
     a \<leftarrow> rget e rd;
     if \<not> dtrace_canstore a (of_nat n) (mach e) then Some (emu_fault CPU_DTRACE_BADADDR a e)
     else if a AND (of_nat n - 1) \<noteq> 0 then Some (emu_fault CPU_DTRACE_BADALIGN a e)
     else Some (e\<lparr>mach := store n a v (mach e)\<rparr>)
   }"

definition exec_copys :: "host \<Rightarrow> nat \<Rightarrow> nat \<Rightarrow> nat \<Rightarrow> emu \<Rightarrow> emu option" where
  "exec_copys h r1 r2 rd e = do {
     src \<leftarrow> rget e r1;
     len \<leftarrow> rget e r2;
     dst \<leftarrow> rget e rd;
     if \<not> dtrace_canstore dst len (mach e) then Some (emu_fault CPU_DTRACE_BADADDR dst e)
     else
       (let (ok, m) = dtrace_canload src len (mach e) in
        if \<not> ok then Some (e\<lparr>mach := m\<rparr>)
        else do {
          m \<leftarrow> dtrace_bcopy h src dst len m;
          Some (e\<lparr>mach := m\<rparr>)
        })
   }"

definition P2ROUNDUP :: "u64 \<Rightarrow> u64 \<Rightarrow> u64" where
  "P2ROUNDUP x align = - (- x AND - align)"

definition exec_allocs :: "nat \<Rightarrow> nat \<Rightarrow> emu \<Rightarrow> emu option" where
  "exec_allocs r1 rd e = do {
     n \<leftarrow> rget e r1;
     let sp = dtms_scratch_ptr (mach e);
     let ptr = P2ROUNDUP sp 8;
     let sz = ptr - sp + n;
     if sz < n \<or> \<not> DTRACE_INSCRATCH (mach e) sz then rset (emu_flag CPU_DTRACE_NOSCRATCH e) rd 0
     else
       (let m = dtrace_bzero sp (ucast sz) (mach e)
        in rset (e\<lparr>mach := m\<lparr>dtms_scratch_ptr := dtms_scratch_ptr m + sz\<rparr>\<rparr>) rd ptr)
   }"

section \<open>Constants, strings, variables\<close>

definition exec_setx :: "dtrace_difo \<Rightarrow> nat \<Rightarrow> nat \<Rightarrow> emu \<Rightarrow> emu option" where
  "exec_setx difo i rd e =
     (if i < length (dtdo_inttab difo) then rset e rd (dtdo_inttab difo ! i) else None)"

definition exec_sets :: "dtrace_difo \<Rightarrow> nat \<Rightarrow> nat \<Rightarrow> emu \<Rightarrow> emu option" where
  "exec_sets difo i rd e = rset e rd (dtdo_strtab difo + of_nat i)"

definition exec_scmp :: "host \<Rightarrow> nat \<Rightarrow> nat \<Rightarrow> emu \<Rightarrow> emu option" where
  "exec_scmp h r1 r2 e = do {
     s1 \<leftarrow> rget e r1;
     s2 \<leftarrow> rget e r2;
     let sz = h_strsize h;
     (ok, m) \<leftarrow> (if s1 \<noteq> 0 then dtrace_strcanload h s1 sz (mach e) else Some (True, mach e));
     if \<not> ok then Some (e\<lparr>mach := m\<rparr>)
     else do {
       (ok, m) \<leftarrow> (if s2 \<noteq> 0 then dtrace_strcanload h s2 sz m else Some (True, m));
       if \<not> ok then Some (e\<lparr>mach := m\<rparr>)
       else do {
         (cc_r, m) \<leftarrow> dtrace_strncmp h s1 s2 sz m;
         Some (e\<lparr>mach := m, cc_n := cc_r < 0, cc_z := cc_r = 0, cc_v := False, cc_c := False\<rparr>)
       }
     }
   }"

definition exec_variable :: "host \<Rightarrow> nat \<Rightarrow> u64 \<Rightarrow> nat \<Rightarrow> emu \<Rightarrow> emu option" where
  "exec_variable h v ndx rd e = do {
     (x, m) \<leftarrow> dtrace_dif_variable h v ndx (mach e);
     rset (e\<lparr>mach := m\<rparr>) rd x
   }"

definition svar_get :: "dtrace_statvar option list \<Rightarrow> nat \<Rightarrow> dtrace_statvar option" where
  "svar_get svars i = (if i < length svars then svars ! i else None)"

text \<open>
  \<^verbatim>\<open>var_id\<close> is the index of a user-defined variable; an identifier below
  \<^verbatim>\<open>DIF_VAR_OTHER_UBASE\<close> fails the assertion.
\<close>

definition var_id :: "dif_instr \<Rightarrow> nat option" where
  "var_id instr =
     (if DIF_INSTR_VAR instr \<ge> DIF_VAR_OTHER_UBASE
      then Some (DIF_INSTR_VAR instr - DIF_VAR_OTHER_UBASE) else None)"

text \<open>A by-reference variable at \<open>a\<close> reads as NULL when its first byte is \<^verbatim>\<open>UINT8_MAX\<close>.\<close>

definition byref_load :: "u64 \<Rightarrow> mach \<Rightarrow> u64" where
  "byref_load a m = (if mem m a = 0xFF then 0 else a + 8)"

definition byref_store :: "host \<Rightarrow> u64 \<Rightarrow> u64 \<Rightarrow> dtrace_diftype \<Rightarrow> mach \<Rightarrow> mach option" where
  "byref_store h x a t m =
     (if x = 0 then Some (store 1 a 0xFF m)
      else do {
        let m = store 1 a 0 m;
        (ok, m) \<leftarrow> dtrace_vcanload h x t m;
        if \<not> ok then Some m else dtrace_vcopy h x (a + 8) t m
      })"

definition exec_ldgs :: "host \<Rightarrow> dif_instr \<Rightarrow> nat \<Rightarrow> emu \<Rightarrow> emu option" where
  "exec_ldgs h instr rd e =
     (let i = DIF_INSTR_VAR instr in
      if i \<ge> DIF_VAR_OTHER_UBASE then do {
        svar \<leftarrow> svar_get (dtvs_globals (mach e)) (i - DIF_VAR_OTHER_UBASE);
        if \<not> DIF_TF_BYREF (dtdv_type (dtsv_var svar)) then rset e rd (dtsv_data svar)
        else rset e rd (byref_load (dtsv_data svar) (mach e))
      }
      else exec_variable h i 0 rd e)"

definition exec_stgs :: "host \<Rightarrow> dif_instr \<Rightarrow> nat \<Rightarrow> emu \<Rightarrow> emu option" where
  "exec_stgs h instr rd e = do {
     i \<leftarrow> var_id instr;
     svar \<leftarrow> svar_get (dtvs_globals (mach e)) i;
     x \<leftarrow> rget e rd;
     let t = dtdv_type (dtsv_var svar);
     if DIF_TF_BYREF t then
       (if dtsv_data svar = 0 \<or> dtsv_size svar = 0 then None
        else do {
          m \<leftarrow> byref_store h x (dtsv_data svar) t (mach e);
          Some (e\<lparr>mach := m\<rparr>)
        })
     else
       Some (e\<lparr>mach := (mach e)\<lparr>dtvs_globals := (dtvs_globals (mach e))[i := Some (svar\<lparr>dtsv_data := x\<rparr>)]\<rparr>\<rparr>)
   }"

definition exec_ldls :: "host \<Rightarrow> dif_instr \<Rightarrow> nat \<Rightarrow> emu \<Rightarrow> emu option" where
  "exec_ldls h instr rd e =
     (if DIF_INSTR_VAR instr < DIF_VAR_OTHER_UBASE then rset e rd 0
      else do {
        svar \<leftarrow> svar_get (dtvs_locals (mach e)) (DIF_INSTR_VAR instr - DIF_VAR_OTHER_UBASE);
        let t = dtdv_type (dtsv_var svar);
        if DIF_TF_BYREF t then
          (let sz = ucast (dtdt_size t) + 8 in
           if dtsv_size svar \<noteq> h_ncpu h * sz then None
           else rset e rd (byref_load (dtsv_data svar + h_cpu h * sz) (mach e)))
        else if dtsv_size svar \<noteq> h_ncpu h * 8 then None
        else rset e rd (read_le (mem (mach e)) 8 (dtsv_data svar + h_cpu h * 8))
      })"

definition exec_stls :: "host \<Rightarrow> dif_instr \<Rightarrow> nat \<Rightarrow> emu \<Rightarrow> emu option" where
  "exec_stls h instr rd e = do {
     i \<leftarrow> var_id instr;
     svar \<leftarrow> svar_get (dtvs_locals (mach e)) i;
     x \<leftarrow> rget e rd;
     let t = dtdv_type (dtsv_var svar);
     if DIF_TF_BYREF t then
       (let sz = ucast (dtdt_size t) + 8 in
        if dtsv_size svar \<noteq> h_ncpu h * sz then None
        else do {
          m \<leftarrow> byref_store h x (dtsv_data svar + h_cpu h * sz) t (mach e);
          Some (e\<lparr>mach := m\<rparr>)
        })
     else if dtsv_size svar \<noteq> h_ncpu h * 8 then None
     else Some (e\<lparr>mach := store 8 (dtsv_data svar + h_cpu h * 8) x (mach e)\<rparr>)
   }"

section \<open>Thread-local variables and associative arrays\<close>

function intr_count :: "u32 \<Rightarrow> nat \<Rightarrow> nat" where
  "intr_count actv intr = (if actv \<noteq> 0 then intr_count (drop_bit 1 actv) (intr + 1) else intr)"
  by pat_completeness auto
termination
proof (relation "measure (unat \<circ> fst)")
  fix actv :: u32 and intr :: nat
  assume "actv \<noteq> 0"
  then have "0 < unat actv" by (simp add: unat_gt_0)
  then show "((drop_bit 1 actv, intr + 1), actv, intr) \<in> measure (unat \<circ> fst)"
    by (simp only: in_measure comp_apply fst_conv unat_drop_bit_eq) (simp add: drop_bit_eq_div)
qed simp

declare intr_count.simps [simp del]

definition DTRACE_TLS_THRKEY :: "host \<Rightarrow> u64 option" where
  "DTRACE_TLS_THRKEY h =
     (let actv = drop_bit (10 + 1) (h_intr_actv h); intr = intr_count actv 0
      in if \<not> intr < push_bit 3 1 then None
      else Some (((h_thread_id h + of_nat DIF_VARIABLE_MAX) AND (push_bit 61 1 - 1)) OR push_bit 61 (of_nat intr)))"

definition tlocal_get :: "mach \<Rightarrow> nat \<Rightarrow> dtrace_difv option" where
  "tlocal_get m i = (if i < length (dtvs_tlocals m) then Some (dtvs_tlocals m ! i) else None)"

text \<open>The size passed to \<^verbatim>\<open>dtrace_dynvar\<close>, and the reads and writes of the variable it returns.\<close>

definition dynvar_size :: "dtrace_difv \<Rightarrow> u64" where
  "dynvar_size v =
     (if (ucast (dtdt_size (dtdv_type v)) :: u64) > 8 then ucast (dtdt_size (dtdv_type v)) else 8)"

definition dynvar_load :: "nat \<Rightarrow> dtrace_difv \<Rightarrow> u64 option \<Rightarrow> emu \<Rightarrow> emu option" where
  "dynvar_load rd v dvar e =
     (case dvar of
        None \<Rightarrow> rset e rd 0
      | Some a \<Rightarrow>
          if DIF_TF_BYREF (dtdv_type v) then rset e rd a
          else rset e rd (read_le (mem (mach e)) 8 a))"

definition dynvar_store :: "host \<Rightarrow> u64 \<Rightarrow> dtrace_difv \<Rightarrow> u64 option \<Rightarrow> emu \<Rightarrow> emu option" where
  "dynvar_store h x v dvar e =
     (case dvar of
        None \<Rightarrow> Some e
      | Some a \<Rightarrow>
          if DIF_TF_BYREF (dtdv_type v) then do {
            (ok, m) \<leftarrow> dtrace_vcanload h x (dtdv_type v) (mach e);
            if \<not> ok then Some (e\<lparr>mach := m\<rparr>)
            else do {
              m \<leftarrow> dtrace_vcopy h x a (dtdv_type v) m;
              Some (e\<lparr>mach := m\<rparr>)
            }
          }
          else Some (e\<lparr>mach := store 8 a x (mach e)\<rparr>))"

definition exec_ldts :: "host \<Rightarrow> dif_instr \<Rightarrow> nat \<Rightarrow> emu \<Rightarrow> emu option" where
  "exec_ldts h instr rd e = do {
     i \<leftarrow> var_id instr;
     v \<leftarrow> tlocal_get (mach e) i;
     e \<leftarrow> tset e DIF_DTR_NREGS (of_nat i, 0);
     key \<leftarrow> DTRACE_TLS_THRKEY h;
     e \<leftarrow> tset e (DIF_DTR_NREGS + 1) (key, 0);
     (dvar, m) \<leftarrow> dtrace_dynvar h (take 2 (drop DIF_DTR_NREGS (tupregs e))) 8 DTRACE_DYNVAR_NOALLOC (mach e);
     dynvar_load rd v dvar (e\<lparr>mach := m\<rparr>)
   }"

definition exec_stts :: "host \<Rightarrow> dif_instr \<Rightarrow> nat \<Rightarrow> emu \<Rightarrow> emu option" where
  "exec_stts h instr rd e = do {
     i \<leftarrow> var_id instr;
     x \<leftarrow> rget e rd;
     e \<leftarrow> tset e DIF_DTR_NREGS (of_nat i, 0);
     key \<leftarrow> DTRACE_TLS_THRKEY h;
     e \<leftarrow> tset e (DIF_DTR_NREGS + 1) (key, 0);
     v \<leftarrow> tlocal_get (mach e) i;
     (dvar, m) \<leftarrow> dtrace_dynvar h (take 2 (drop DIF_DTR_NREGS (tupregs e))) (dynvar_size v)
                       (if x \<noteq> 0 then DTRACE_DYNVAR_ALLOC else DTRACE_DYNVAR_DEALLOC) (mach e);
     dynvar_store h x v dvar (e\<lparr>mach := m\<lparr>t_predcache := 0\<rparr>\<rparr>)
   }"

text \<open>The key of an associative array element: the tuple, the variable, and for \<^verbatim>\<open>self->\<close> the thread.\<close>

definition assoc_key :: "host \<Rightarrow> bool \<Rightarrow> nat \<Rightarrow> emu \<Rightarrow> (dtrace_difv \<times> dtrace_key list \<times> emu) option" where
  "assoc_key h tls i e = do {
     let nkeys = ttop e;
     e \<leftarrow> tset e nkeys (of_nat i, 0);
     if tls then do {
       key \<leftarrow> DTRACE_TLS_THRKEY h;
       e \<leftarrow> tset e (nkeys + 1) (key, 0);
       v \<leftarrow> tlocal_get (mach e) i;
       Some (v, take (nkeys + 2) (tupregs e), e)
     }
     else do {
       svar \<leftarrow> svar_get (dtvs_globals (mach e)) i;
       Some (dtsv_var svar, take (nkeys + 1) (tupregs e), e)
     }
   }"

definition exec_ldaa :: "host \<Rightarrow> bool \<Rightarrow> dif_instr \<Rightarrow> nat \<Rightarrow> emu \<Rightarrow> emu option" where
  "exec_ldaa h tls instr rd e = do {
     i \<leftarrow> var_id instr;
     (v, key, e) \<leftarrow> assoc_key h tls i e;
     (dvar, m) \<leftarrow> dtrace_dynvar h key (dynvar_size v) DTRACE_DYNVAR_NOALLOC (mach e);
     dynvar_load rd v dvar (e\<lparr>mach := m\<rparr>)
   }"

definition exec_staa :: "host \<Rightarrow> bool \<Rightarrow> dif_instr \<Rightarrow> nat \<Rightarrow> emu \<Rightarrow> emu option" where
  "exec_staa h tls instr rd e = do {
     i \<leftarrow> var_id instr;
     x \<leftarrow> rget e rd;
     (v, key, e) \<leftarrow> assoc_key h tls i e;
     (dvar, m) \<leftarrow> dtrace_dynvar h key (dynvar_size v)
                       (if x \<noteq> 0 then DTRACE_DYNVAR_ALLOC else DTRACE_DYNVAR_DEALLOC) (mach e);
     dynvar_store h x v dvar (e\<lparr>mach := m\<rparr>)
   }"

section \<open>The tuple stack and subroutine calls\<close>

definition exec_pushtr :: "host \<Rightarrow> nat \<Rightarrow> nat \<Rightarrow> nat \<Rightarrow> emu \<Rightarrow> emu option" where
  "exec_pushtr h r1 r2 rd e =
     (if ttop e = DIF_DTR_NREGS then Some (emu_flag CPU_DTRACE_TUPOFLOW e)
      else do {
        v \<leftarrow> rget e rd;
        n \<leftarrow> rget e r2;
        if r1 = DIF_TYPE_STRING then do {
          (len, m) \<leftarrow> dtrace_strlen h v (if n \<noteq> 0 then n else dtrace_strsize_default h) (mach e);
          e \<leftarrow> tset (e\<lparr>mach := m\<rparr>) (ttop e) (v, len + 1);
          Some (e\<lparr>ttop := ttop e + 1\<rparr>)
        }
        else do {
          e \<leftarrow> tset e (ttop e) (v, n);
          Some (e\<lparr>ttop := ttop e + 1\<rparr>)
        }
      })"

definition exec_pushtv :: "nat \<Rightarrow> emu \<Rightarrow> emu option" where
  "exec_pushtv rd e =
     (if ttop e = DIF_DTR_NREGS then Some (emu_flag CPU_DTRACE_TUPOFLOW e)
      else do {
        v \<leftarrow> rget e rd;
        e \<leftarrow> tset e (ttop e) (v, 0);
        Some (e\<lparr>ttop := ttop e + 1\<rparr>)
      })"

definition exec_popts :: "emu \<Rightarrow> emu" where
  "exec_popts e = (if ttop e \<noteq> 0 then e\<lparr>ttop := ttop e - 1\<rparr> else e)"

definition exec_call :: "host \<Rightarrow> nat \<Rightarrow> nat \<Rightarrow> emu \<Rightarrow> emu option" where
  "exec_call h subr rd e = do {
     (x, m) \<leftarrow> dtrace_dif_subr h subr (regs e) (tupregs e) (ttop e) (mach e);
     case x of None \<Rightarrow> Some (e\<lparr>mach := m\<rparr>) | Some v \<Rightarrow> rset (e\<lparr>mach := m\<rparr>) rd v
   }"

definition exec_ret :: "dtrace_difo \<Rightarrow> nat \<Rightarrow> emu \<Rightarrow> emu option" where
  "exec_ret difo rd e = do {
     v \<leftarrow> rget e rd;
     Some (e\<lparr>rval := v, pc := length (dtdo_buf difo)\<rparr>)
   }"

section \<open>Dispatch and loop\<close>

text \<open>An opcode without a case in the \<^verbatim>\<open>switch\<close> does nothing.\<close>

definition dif_exec :: "host \<Rightarrow> dtrace_difo \<Rightarrow> dif_instr \<Rightarrow> emu \<Rightarrow> emu option" where
  "dif_exec h difo instr e =
     (let r1 = DIF_INSTR_R1 instr; r2 = DIF_INSTR_R2 instr; rd = DIF_INSTR_RD instr in
      case DIF_INSTR_OP instr of
        None \<Rightarrow> Some e
      | Some op \<Rightarrow>
          (case op of
             DIF_OP_OR \<Rightarrow> exec_alu op r1 r2 rd e
           | DIF_OP_XOR \<Rightarrow> exec_alu op r1 r2 rd e
           | DIF_OP_AND \<Rightarrow> exec_alu op r1 r2 rd e
           | DIF_OP_SLL \<Rightarrow> exec_alu op r1 r2 rd e
           | DIF_OP_SRL \<Rightarrow> exec_alu op r1 r2 rd e
           | DIF_OP_SUB \<Rightarrow> exec_alu op r1 r2 rd e
           | DIF_OP_ADD \<Rightarrow> exec_alu op r1 r2 rd e
           | DIF_OP_MUL \<Rightarrow> exec_alu op r1 r2 rd e
           | DIF_OP_SDIV \<Rightarrow> exec_alu op r1 r2 rd e
           | DIF_OP_UDIV \<Rightarrow> exec_alu op r1 r2 rd e
           | DIF_OP_SREM \<Rightarrow> exec_alu op r1 r2 rd e
           | DIF_OP_UREM \<Rightarrow> exec_alu op r1 r2 rd e
           | DIF_OP_SRA \<Rightarrow> exec_alu op r1 r2 rd e
           | DIF_OP_NOT \<Rightarrow> exec_not r1 rd e
           | DIF_OP_MOV \<Rightarrow> exec_mov r1 rd e
           | DIF_OP_CMP \<Rightarrow> exec_cmp r1 r2 e
           | DIF_OP_TST \<Rightarrow> exec_tst r1 e
           | DIF_OP_BA \<Rightarrow> Some (exec_branch op instr e)
           | DIF_OP_BE \<Rightarrow> Some (exec_branch op instr e)
           | DIF_OP_BNE \<Rightarrow> Some (exec_branch op instr e)
           | DIF_OP_BG \<Rightarrow> Some (exec_branch op instr e)
           | DIF_OP_BGU \<Rightarrow> Some (exec_branch op instr e)
           | DIF_OP_BGE \<Rightarrow> Some (exec_branch op instr e)
           | DIF_OP_BGEU \<Rightarrow> Some (exec_branch op instr e)
           | DIF_OP_BL \<Rightarrow> Some (exec_branch op instr e)
           | DIF_OP_BLU \<Rightarrow> Some (exec_branch op instr e)
           | DIF_OP_BLE \<Rightarrow> Some (exec_branch op instr e)
           | DIF_OP_BLEU \<Rightarrow> Some (exec_branch op instr e)
           | DIF_OP_LDSB \<Rightarrow> exec_load h op r1 rd e
           | DIF_OP_LDSH \<Rightarrow> exec_load h op r1 rd e
           | DIF_OP_LDSW \<Rightarrow> exec_load h op r1 rd e
           | DIF_OP_LDUB \<Rightarrow> exec_load h op r1 rd e
           | DIF_OP_LDUH \<Rightarrow> exec_load h op r1 rd e
           | DIF_OP_LDUW \<Rightarrow> exec_load h op r1 rd e
           | DIF_OP_LDX \<Rightarrow> exec_load h op r1 rd e
           | DIF_OP_RLDSB \<Rightarrow> exec_load h op r1 rd e
           | DIF_OP_RLDSH \<Rightarrow> exec_load h op r1 rd e
           | DIF_OP_RLDSW \<Rightarrow> exec_load h op r1 rd e
           | DIF_OP_RLDUB \<Rightarrow> exec_load h op r1 rd e
           | DIF_OP_RLDUH \<Rightarrow> exec_load h op r1 rd e
           | DIF_OP_RLDUW \<Rightarrow> exec_load h op r1 rd e
           | DIF_OP_RLDX \<Rightarrow> exec_load h op r1 rd e
           | DIF_OP_ULDSB \<Rightarrow> exec_uload h op r1 rd e
           | DIF_OP_ULDSH \<Rightarrow> exec_uload h op r1 rd e
           | DIF_OP_ULDSW \<Rightarrow> exec_uload h op r1 rd e
           | DIF_OP_ULDUB \<Rightarrow> exec_uload h op r1 rd e
           | DIF_OP_ULDUH \<Rightarrow> exec_uload h op r1 rd e
           | DIF_OP_ULDUW \<Rightarrow> exec_uload h op r1 rd e
           | DIF_OP_ULDX \<Rightarrow> exec_uload h op r1 rd e
           | DIF_OP_RET \<Rightarrow> exec_ret difo rd e
           | DIF_OP_NOP \<Rightarrow> Some e
           | DIF_OP_SETX \<Rightarrow> exec_setx difo (DIF_INSTR_INTEGER instr) rd e
           | DIF_OP_SETS \<Rightarrow> exec_sets difo (DIF_INSTR_STRING instr) rd e
           | DIF_OP_SCMP \<Rightarrow> exec_scmp h r1 r2 e
           | DIF_OP_LDGA \<Rightarrow> do { ndx \<leftarrow> rget e r2; exec_variable h r1 ndx rd e }
           | DIF_OP_LDGS \<Rightarrow> exec_ldgs h instr rd e
           | DIF_OP_STGS \<Rightarrow> exec_stgs h instr rd e
           | DIF_OP_LDTA \<Rightarrow> rset (emu_flag CPU_DTRACE_ILLOP e) rd 0
           | DIF_OP_LDTS \<Rightarrow> exec_ldts h instr rd e
           | DIF_OP_STTS \<Rightarrow> exec_stts h instr rd e
           | DIF_OP_CALL \<Rightarrow> exec_call h (DIF_INSTR_SUBR instr) rd e
           | DIF_OP_PUSHTR \<Rightarrow> exec_pushtr h r1 r2 rd e
           | DIF_OP_PUSHTV \<Rightarrow> exec_pushtv rd e
           | DIF_OP_POPTS \<Rightarrow> Some (exec_popts e)
           | DIF_OP_FLUSHTS \<Rightarrow> Some (e\<lparr>ttop := 0\<rparr>)
           | DIF_OP_LDGAA \<Rightarrow> exec_ldaa h False instr rd e
           | DIF_OP_LDTAA \<Rightarrow> exec_ldaa h True instr rd e
           | DIF_OP_STGAA \<Rightarrow> exec_staa h False instr rd e
           | DIF_OP_STTAA \<Rightarrow> exec_staa h True instr rd e
           | DIF_OP_LDLS \<Rightarrow> exec_ldls h instr rd e
           | DIF_OP_STLS \<Rightarrow> exec_stls h instr rd e
           | DIF_OP_ALLOCS \<Rightarrow> exec_allocs r1 rd e
           | DIF_OP_COPYS \<Rightarrow> exec_copys h r1 r2 rd e
           | DIF_OP_STB \<Rightarrow> exec_store 1 r1 rd e
           | DIF_OP_STH \<Rightarrow> exec_store 2 r1 rd e
           | DIF_OP_STW \<Rightarrow> exec_store 4 r1 rd e
           | DIF_OP_STX \<Rightarrow> exec_store 8 r1 rd e
           | DIF_OP_XLATE \<Rightarrow> Some e
           | DIF_OP_XLARG \<Rightarrow> Some e))"

text \<open>One iteration of the loop: fetch, advance, dispatch.\<close>

definition dif_step :: "host \<Rightarrow> dtrace_difo \<Rightarrow> emu \<Rightarrow> emu option" where
  "dif_step h difo e =
     dif_exec h difo (dtdo_buf difo ! pc e) (e\<lparr>opc := pc e, pc := pc e + 1\<rparr>)"

datatype 'a outcome = Returned 'a | Undefined | Timeout

definition dif_running :: "dtrace_difo \<Rightarrow> emu \<Rightarrow> bool" where
  "dif_running difo e \<longleftrightarrow> pc e < length (dtdo_buf difo) \<and> \<not> cpu_fault (mach e)"

text \<open>The loop, with a bound on the number of iterations.\<close>

fun dif_loop :: "host \<Rightarrow> dtrace_difo \<Rightarrow> nat \<Rightarrow> emu \<Rightarrow> emu outcome" where
  "dif_loop h difo 0 e = (if dif_running difo e then Timeout else Returned e)"
| "dif_loop h difo (Suc n) e =
     (if dif_running difo e then
        (case dif_step h difo e of None \<Rightarrow> Undefined | Some e' \<Rightarrow> dif_loop h difo n e')
      else Returned e)"

abbreviation (input) DTRACE_MSTATE_FLTOFFS :: u32 where "DTRACE_MSTATE_FLTOFFS \<equiv> 0x80"

text \<open>
  The arrays are on the C stack: \<open>regs0\<close> and \<open>tup0\<close> are what they hold at entry, only register 0 is
  initialised.
\<close>

definition emu_init :: "dtrace_difo \<Rightarrow> u64 list \<Rightarrow> dtrace_key list \<Rightarrow> mach \<Rightarrow> emu" where
  "emu_init difo regs0 tup0 m =
     \<lparr>regs = regs0[0 := 0], tupregs = tup0, ttop = 0, cc_n = False, cc_z = False, cc_v = False,
       cc_c = False, pc = 0, opc = 0, rval = 0, mach = m\<lparr>dtms_difo := difo\<rparr>\<rparr>"

definition emu_result :: "emu \<Rightarrow> u64 \<times> mach" where
  "emu_result e =
     (if \<not> cpu_fault (mach e) then (rval e, mach e)
      else (0, (mach e)\<lparr>dtms_fltoffs := opc e * 4,
                 dtms_present := dtms_present (mach e) OR DTRACE_MSTATE_FLTOFFS\<rparr>))"

definition dtrace_dif_emulate ::
  "host \<Rightarrow> nat \<Rightarrow> dtrace_difo \<Rightarrow> u64 list \<Rightarrow> dtrace_key list \<Rightarrow> mach \<Rightarrow> (u64 \<times> mach) outcome" where
  "dtrace_dif_emulate h fuel difo regs0 tup0 m =
     (case dif_loop h difo fuel (emu_init difo regs0 tup0 m) of
        Returned e \<Rightarrow> Returned (emu_result e)
      | Undefined \<Rightarrow> Undefined
      | Timeout \<Rightarrow> Timeout)"


section \<open>Conditions\<close>

lemma sint_diff64:
  fixes x y :: u64
  assumes "- (2 ^ 63) \<le> sint x - sint y" "sint x - sint y < 2 ^ 63"
  shows "sint (x - y) = sint x - sint y"
proof -
  have "x - y = word_of_int (sint x - sint y)" by simp
  then show ?thesis using assms by (simp only: sint_word_of_int64)
qed

text \<open>
  \<^bold>\<open>C15.\<close> After \<^verbatim>\<open>DIF_OP_CMP\<close> the equality branches and the unsigned branches are taken exactly when
  their relation holds of the operands, and the signed branches are too, provided the difference of the
  operands does not overflow.
\<close>

theorem dif_cmp_branches:
  assumes "rget e r1 = Some x" "rget e r2 = Some y"
  shows "\<exists>e'. exec_cmp r1 r2 e = Some e' \<and>
    dif_branch DIF_OP_BE e' = (x = y) \<and> dif_branch DIF_OP_BNE e' = (x \<noteq> y) \<and>
    dif_branch DIF_OP_BGU e' = (x > y) \<and> dif_branch DIF_OP_BGEU e' = (x \<ge> y) \<and>
    dif_branch DIF_OP_BLU e' = (x < y) \<and> dif_branch DIF_OP_BLEU e' = (x \<le> y) \<and>
    (- (2 ^ 63) \<le> sint x - sint y \<and> sint x - sint y < 2 ^ 63 \<longrightarrow>
      dif_branch DIF_OP_BG e' = (sint x > sint y) \<and> dif_branch DIF_OP_BGE e' = (sint x \<ge> sint y) \<and>
      dif_branch DIF_OP_BL e' = (sint x < sint y) \<and> dif_branch DIF_OP_BLE e' = (sint x \<le> sint y))"
proof -
  have "sint (x - y) = 0 \<longleftrightarrow> x = y" by (metis eq_iff_diff_eq_0 signed_eq_0_iff)
  then show ?thesis
    using assms sint_diff64 [of x y] by (auto simp: exec_cmp_def dif_branch_def)
qed

definition emu0 :: emu where
  "emu0 = emu_init difo0 [0, 3, 5, 0x7FFFFFFFFFFFFFFF, 0xFFFFFFFFFFFFFFFF, 0, 0, 0] (replicate 10 (0, 0)) mach0"

theorem dif_cmp_branches_witness:
  "\<exists>e'. exec_cmp 1 2 emu0 = Some e' \<and> dif_branch DIF_OP_BL e'"
  using dif_cmp_branches [of emu0 1 3 2 5] by (auto simp: rget_def emu0_def emu_init_def)

lemma sint_diff_overflow:
  fixes x y :: u64
  shows "sint x - sint y < - (2 ^ 63) \<Longrightarrow> sint (x - y) = sint x - sint y + 2 ^ 64"
    "2 ^ 63 \<le> sint x - sint y \<Longrightarrow> sint (x - y) = sint x - sint y - 2 ^ 64"
proof -
  have wrap: "x - y = word_of_int (sint x - sint y + 2 ^ 64)" "x - y = word_of_int (sint x - sint y - 2 ^ 64)"
    by simp_all
  note range = sint_range64 [of x] sint_range64 [of y]
  show "sint (x - y) = sint x - sint y + 2 ^ 64" if "sint x - sint y < - (2 ^ 63)"
    unfolding wrap(1) using range that by (intro sint_word_of_int64) simp_all
  show "sint (x - y) = sint x - sint y - 2 ^ 64" if "2 ^ 63 \<le> sint x - sint y"
    unfolding wrap(2) using range that by (intro sint_word_of_int64) simp_all
qed

text \<open>
  \<^bold>\<open>C16.\<close> \<^verbatim>\<open>DIF_OP_CMP\<close> clears the overflow bit, so for all operands each of the four signed branches goes
  the wrong way exactly when the difference of the operands overflows 64 bits: it is then taken when its
  relation does not hold and not taken when it does.
\<close>

theorem dif_cmp_overflow:
  assumes "rget e r1 = Some x" "rget e r2 = Some y"
  shows "\<exists>e'. exec_cmp r1 r2 e = Some e' \<and>
    (let overflow = sint x - sint y < - (2 ^ 63) \<or> 2 ^ 63 \<le> sint x - sint y in
     (dif_branch DIF_OP_BL e' \<noteq> (sint x < sint y)) = overflow \<and>
     (dif_branch DIF_OP_BLE e' \<noteq> (sint x \<le> sint y)) = overflow \<and>
     (dif_branch DIF_OP_BG e' \<noteq> (sint x > sint y)) = overflow \<and>
     (dif_branch DIF_OP_BGE e' \<noteq> (sint x \<ge> sint y)) = overflow)"
proof -
  consider "sint x - sint y < - (2 ^ 63)" "sint (x - y) = sint x - sint y + 2 ^ 64"
    | "2 ^ 63 \<le> sint x - sint y" "sint (x - y) = sint x - sint y - 2 ^ 64"
    | "- (2 ^ 63) \<le> sint x - sint y" "sint x - sint y < 2 ^ 63" "sint (x - y) = sint x - sint y"
    using sint_diff_overflow [of x y] sint_diff64 [of x y] by linarith
  then show ?thesis
    using assms sint_range64 [of x] sint_range64 [of y]
    by cases (auto simp: exec_cmp_def dif_branch_def Let_def)
qed

theorem dif_cmp_overflow_witness:
  "\<exists>e'. exec_cmp 3 4 emu0 = Some e' \<and> sint (-1 :: u64) < sint (0x7FFFFFFFFFFFFFFF :: u64) \<and>
    dif_branch DIF_OP_BL e' \<and> \<not> dif_branch DIF_OP_BG e'"
  using dif_cmp_overflow [where e = emu0 and ?r1.0 = 3 and x = "0x7FFFFFFFFFFFFFFF" and ?r2.0 = 4 and y = "-1"]
  by (auto simp: rget_def emu0_def emu_init_def Let_def)

end
