(* ===== verification/DT_Validate.thy ===== *)
theory DT_Validate
  imports DT_Memory
begin

text \<open>
  \<^verbatim>\<open>dtrace_difo_validate\<close>, \<^verbatim>\<open>dtrace_difo_validate_helper\<close> and \<^verbatim>\<open>dtrace_difo_cacheable\<close> of
  \<^verbatim>\<open>driver/dtrace.c\<close>. Validation returns the number of errors and the object, in which it has rewritten the
  loads of an unprivileged consumer.
\<close>

section \<open>Instructions\<close>

definition err :: "bool \<Rightarrow> nat" where
  "err b = (if b then 1 else 0)"

definition check_r3 :: "nat \<Rightarrow> dif_instr \<Rightarrow> nat" where
  "check_r3 nregs i =
     err (DIF_INSTR_R1 i \<ge> nregs) + err (DIF_INSTR_R2 i \<ge> nregs) +
     err (DIF_INSTR_RD i \<ge> nregs) + err (DIF_INSTR_RD i = 0)"

definition check_r2 :: "nat \<Rightarrow> dif_instr \<Rightarrow> nat" where
  "check_r2 nregs i =
     err (DIF_INSTR_R1 i \<ge> nregs) + err (DIF_INSTR_R2 i \<noteq> 0) +
     err (DIF_INSTR_RD i \<ge> nregs) + err (DIF_INSTR_RD i = 0)"

definition check_cmp :: "nat \<Rightarrow> dif_instr \<Rightarrow> nat" where
  "check_cmp nregs i =
     err (DIF_INSTR_R1 i \<ge> nregs) + err (DIF_INSTR_R2 i \<ge> nregs) + err (DIF_INSTR_RD i \<noteq> 0)"

definition check_tst :: "nat \<Rightarrow> dif_instr \<Rightarrow> nat" where
  "check_tst nregs i =
     err (DIF_INSTR_R1 i \<ge> nregs) + err (DIF_INSTR_R2 i \<noteq> 0 \<or> DIF_INSTR_RD i \<noteq> 0)"

definition check_branch :: "nat \<Rightarrow> nat \<Rightarrow> dif_instr \<Rightarrow> nat" where
  "check_branch len pc i = err (DIF_INSTR_LABEL i \<ge> len) + err (DIF_INSTR_LABEL i \<le> pc)"

definition check_ret :: "nat \<Rightarrow> dif_instr \<Rightarrow> nat" where
  "check_ret nregs i =
     err (DIF_INSTR_R1 i \<noteq> 0 \<or> DIF_INSTR_R2 i \<noteq> 0) + err (DIF_INSTR_RD i \<ge> nregs)"

definition check_none :: "dif_instr \<Rightarrow> nat" where
  "check_none i = err (DIF_INSTR_R1 i \<noteq> 0 \<or> DIF_INSTR_R2 i \<noteq> 0 \<or> DIF_INSTR_RD i \<noteq> 0)"

definition check_rd :: "nat \<Rightarrow> dif_instr \<Rightarrow> nat" where
  "check_rd nregs i = err (DIF_INSTR_RD i \<ge> nregs) + err (DIF_INSTR_RD i = 0)"

definition check_setx :: "nat \<Rightarrow> dtrace_difo \<Rightarrow> dif_instr \<Rightarrow> nat" where
  "check_setx nregs dp i = err (DIF_INSTR_INTEGER i \<ge> length (dtdo_inttab dp)) + check_rd nregs i"

definition check_sets :: "nat \<Rightarrow> dtrace_difo \<Rightarrow> dif_instr \<Rightarrow> nat" where
  "check_sets nregs dp i = err (DIF_INSTR_STRING i \<ge> unat (dtdo_strlen dp)) + check_rd nregs i"

definition check_array :: "nat \<Rightarrow> dif_instr \<Rightarrow> nat" where
  "check_array nregs i =
     err (DIF_INSTR_R1 i > DIF_VAR_ARRAY_MAX) + err (DIF_INSTR_R2 i \<ge> nregs) + check_rd nregs i"

definition check_ldvar :: "nat \<Rightarrow> dif_instr \<Rightarrow> nat" where
  "check_ldvar nregs i =
     err (DIF_INSTR_VAR i < DIF_VAR_OTHER_MIN \<or> DIF_INSTR_VAR i > DIF_VAR_OTHER_MAX) + check_rd nregs i"

definition check_stvar :: "nat \<Rightarrow> dif_instr \<Rightarrow> nat" where
  "check_stvar nregs i =
     err (DIF_INSTR_VAR i < DIF_VAR_OTHER_UBASE \<or> DIF_INSTR_VAR i > DIF_VAR_OTHER_MAX) +
     err (DIF_INSTR_RS i \<ge> nregs)"

definition check_call :: "nat \<Rightarrow> dif_instr \<Rightarrow> nat" where
  "check_call nregs i = err (DIF_INSTR_SUBR i > DIF_SUBR_MAX) + check_rd nregs i"

definition check_pushtr :: "nat \<Rightarrow> dif_instr \<Rightarrow> nat" where
  "check_pushtr nregs i =
     err (DIF_INSTR_TYPE i \<noteq> DIF_TYPE_STRING \<and> DIF_INSTR_TYPE i \<noteq> DIF_TYPE_CTF) +
     err (DIF_INSTR_R2 i \<ge> nregs) + err (DIF_INSTR_RS i \<ge> nregs)"

definition check_pushtv :: "nat \<Rightarrow> dif_instr \<Rightarrow> nat" where
  "check_pushtv nregs i =
     err (DIF_INSTR_TYPE i \<noteq> DIF_TYPE_CTF) +
     err (DIF_INSTR_R2 i \<ge> nregs) + err (DIF_INSTR_RS i \<ge> nregs)"

text \<open>The \<^verbatim>\<open>switch\<close> of the validation loop: the errors of the instruction at \<open>pc\<close>.\<close>

definition check_instr :: "nat \<Rightarrow> dtrace_difo \<Rightarrow> nat \<Rightarrow> dif_instr \<Rightarrow> nat" where
  "check_instr nregs dp pc i =
     (case DIF_INSTR_OP i of
        None \<Rightarrow> 1
      | Some op \<Rightarrow>
          (case op of
             DIF_OP_OR \<Rightarrow> check_r3 nregs i
           | DIF_OP_XOR \<Rightarrow> check_r3 nregs i
           | DIF_OP_AND \<Rightarrow> check_r3 nregs i
           | DIF_OP_SLL \<Rightarrow> check_r3 nregs i
           | DIF_OP_SRL \<Rightarrow> check_r3 nregs i
           | DIF_OP_SRA \<Rightarrow> check_r3 nregs i
           | DIF_OP_SUB \<Rightarrow> check_r3 nregs i
           | DIF_OP_ADD \<Rightarrow> check_r3 nregs i
           | DIF_OP_MUL \<Rightarrow> check_r3 nregs i
           | DIF_OP_SDIV \<Rightarrow> check_r3 nregs i
           | DIF_OP_UDIV \<Rightarrow> check_r3 nregs i
           | DIF_OP_SREM \<Rightarrow> check_r3 nregs i
           | DIF_OP_UREM \<Rightarrow> check_r3 nregs i
           | DIF_OP_COPYS \<Rightarrow> check_r3 nregs i
           | DIF_OP_NOT \<Rightarrow> check_r2 nregs i
           | DIF_OP_MOV \<Rightarrow> check_r2 nregs i
           | DIF_OP_ALLOCS \<Rightarrow> check_r2 nregs i
           | DIF_OP_LDSB \<Rightarrow> check_r2 nregs i
           | DIF_OP_LDSH \<Rightarrow> check_r2 nregs i
           | DIF_OP_LDSW \<Rightarrow> check_r2 nregs i
           | DIF_OP_LDUB \<Rightarrow> check_r2 nregs i
           | DIF_OP_LDUH \<Rightarrow> check_r2 nregs i
           | DIF_OP_LDUW \<Rightarrow> check_r2 nregs i
           | DIF_OP_LDX \<Rightarrow> check_r2 nregs i
           | DIF_OP_RLDSB \<Rightarrow> check_r2 nregs i
           | DIF_OP_RLDSH \<Rightarrow> check_r2 nregs i
           | DIF_OP_RLDSW \<Rightarrow> check_r2 nregs i
           | DIF_OP_RLDUB \<Rightarrow> check_r2 nregs i
           | DIF_OP_RLDUH \<Rightarrow> check_r2 nregs i
           | DIF_OP_RLDUW \<Rightarrow> check_r2 nregs i
           | DIF_OP_RLDX \<Rightarrow> check_r2 nregs i
           | DIF_OP_ULDSB \<Rightarrow> check_r2 nregs i
           | DIF_OP_ULDSH \<Rightarrow> check_r2 nregs i
           | DIF_OP_ULDSW \<Rightarrow> check_r2 nregs i
           | DIF_OP_ULDUB \<Rightarrow> check_r2 nregs i
           | DIF_OP_ULDUH \<Rightarrow> check_r2 nregs i
           | DIF_OP_ULDUW \<Rightarrow> check_r2 nregs i
           | DIF_OP_ULDX \<Rightarrow> check_r2 nregs i
           | DIF_OP_STB \<Rightarrow> check_r2 nregs i
           | DIF_OP_STH \<Rightarrow> check_r2 nregs i
           | DIF_OP_STW \<Rightarrow> check_r2 nregs i
           | DIF_OP_STX \<Rightarrow> check_r2 nregs i
           | DIF_OP_CMP \<Rightarrow> check_cmp nregs i
           | DIF_OP_SCMP \<Rightarrow> check_cmp nregs i
           | DIF_OP_TST \<Rightarrow> check_tst nregs i
           | DIF_OP_BA \<Rightarrow> check_branch (length (dtdo_buf dp)) pc i
           | DIF_OP_BE \<Rightarrow> check_branch (length (dtdo_buf dp)) pc i
           | DIF_OP_BNE \<Rightarrow> check_branch (length (dtdo_buf dp)) pc i
           | DIF_OP_BG \<Rightarrow> check_branch (length (dtdo_buf dp)) pc i
           | DIF_OP_BGU \<Rightarrow> check_branch (length (dtdo_buf dp)) pc i
           | DIF_OP_BGE \<Rightarrow> check_branch (length (dtdo_buf dp)) pc i
           | DIF_OP_BGEU \<Rightarrow> check_branch (length (dtdo_buf dp)) pc i
           | DIF_OP_BL \<Rightarrow> check_branch (length (dtdo_buf dp)) pc i
           | DIF_OP_BLU \<Rightarrow> check_branch (length (dtdo_buf dp)) pc i
           | DIF_OP_BLE \<Rightarrow> check_branch (length (dtdo_buf dp)) pc i
           | DIF_OP_BLEU \<Rightarrow> check_branch (length (dtdo_buf dp)) pc i
           | DIF_OP_RET \<Rightarrow> check_ret nregs i
           | DIF_OP_NOP \<Rightarrow> check_none i
           | DIF_OP_POPTS \<Rightarrow> check_none i
           | DIF_OP_FLUSHTS \<Rightarrow> check_none i
           | DIF_OP_SETX \<Rightarrow> check_setx nregs dp i
           | DIF_OP_SETS \<Rightarrow> check_sets nregs dp i
           | DIF_OP_LDGA \<Rightarrow> check_array nregs i
           | DIF_OP_LDTA \<Rightarrow> check_array nregs i
           | DIF_OP_LDGS \<Rightarrow> check_ldvar nregs i
           | DIF_OP_LDTS \<Rightarrow> check_ldvar nregs i
           | DIF_OP_LDLS \<Rightarrow> check_ldvar nregs i
           | DIF_OP_LDGAA \<Rightarrow> check_ldvar nregs i
           | DIF_OP_LDTAA \<Rightarrow> check_ldvar nregs i
           | DIF_OP_STGS \<Rightarrow> check_stvar nregs i
           | DIF_OP_STTS \<Rightarrow> check_stvar nregs i
           | DIF_OP_STLS \<Rightarrow> check_stvar nregs i
           | DIF_OP_STGAA \<Rightarrow> check_stvar nregs i
           | DIF_OP_STTAA \<Rightarrow> check_stvar nregs i
           | DIF_OP_CALL \<Rightarrow> check_call nregs i
           | DIF_OP_PUSHTR \<Rightarrow> check_pushtr nregs i
           | DIF_OP_PUSHTV \<Rightarrow> check_pushtv nregs i
           | DIF_OP_XLATE \<Rightarrow> 1
           | DIF_OP_XLARG \<Rightarrow> 1))"

text \<open>
  What the loop writes back: for a consumer without kernel visibility \<^verbatim>\<open>op + DIF_OP_RLDSB - DIF_OP_LDSB\<close>
  replaces a load, and a call to \<^verbatim>\<open>copyout()\<close> or \<^verbatim>\<open>copyoutstr()\<close> marks the object destructive.
\<close>

definition unrestricted_load :: "dif_op \<Rightarrow> bool" where
  "unrestricted_load op \<longleftrightarrow>
     op \<in> {DIF_OP_LDSB, DIF_OP_LDSH, DIF_OP_LDSW, DIF_OP_LDUB, DIF_OP_LDUH, DIF_OP_LDUW, DIF_OP_LDX}"

definition restricted_op :: "dif_op \<Rightarrow> dif_op" where
  "restricted_op op = dif_ops ! (op_code op + op_code DIF_OP_RLDSB - op_code DIF_OP_LDSB - 1)"

definition rewrite_instr :: "bool \<Rightarrow> dif_instr \<Rightarrow> dif_instr" where
  "rewrite_instr kcheckload i =
     (case DIF_INSTR_OP i of
        None \<Rightarrow> i
      | Some op \<Rightarrow>
          if unrestricted_load op \<and> kcheckload
          then DIF_INSTR_LOAD (restricted_op op) (DIF_INSTR_R1 i) (DIF_INSTR_RD i) else i)"

definition destructive_instr :: "dif_instr \<Rightarrow> bool" where
  "destructive_instr i \<longleftrightarrow>
     DIF_INSTR_OP i = Some DIF_OP_CALL \<and>
     (DIF_INSTR_SUBR i = DIF_SUBR_COPYOUT \<or> DIF_INSTR_SUBR i = DIF_SUBR_COPYOUTSTR)"

fun validate_text :: "bool \<Rightarrow> nat \<Rightarrow> nat \<Rightarrow> nat \<Rightarrow> dtrace_difo \<Rightarrow> nat \<times> dtrace_difo" where
  "validate_text kcheckload nregs 0 pc dp = (0, dp)"
| "validate_text kcheckload nregs (Suc n) pc dp =
     (let i = dtdo_buf dp ! pc;
          e = check_instr nregs dp pc i;
          dp = dp\<lparr>dtdo_buf := (dtdo_buf dp)[pc := rewrite_instr kcheckload i],
                  dtdo_destructive := dtdo_destructive dp \<or> destructive_instr i\<rparr>
      in if e = 0 then validate_text kcheckload nregs n (pc + 1) dp else (e, dp))"

section \<open>Return type and variables\<close>

definition check_last :: "dtrace_difo \<Rightarrow> nat" where
  "check_last dp =
     err (dtdo_buf dp \<noteq> [] \<and>
          DIF_INSTR_OP (dtdo_buf dp ! (length (dtdo_buf dp) - 1)) \<noteq> Some DIF_OP_RET)"

definition check_rtype :: "dtrace_difo \<Rightarrow> nat" where
  "check_rtype dp =
     err (\<not> DIF_TF_BYREF (dtdo_rtype dp) \<and> dtdt_size (dtdo_rtype dp) \<notin> {0, 1, 2, 4, 8})"

text \<open>
  The previous definition of a user-defined variable with the given scope and index. The code asserts that
  it has the identifier and the scope of the new one; nothing it computes depends on that, and a failed
  assertion only prints a message, so \<open>check_var\<close> has no branch for it.
\<close>

definition existing_var :: "mach \<Rightarrow> u8 \<Rightarrow> nat \<Rightarrow> dtrace_difv option" where
  "existing_var m scope ndx =
     (if scope = DIFV_SCOPE_GLOBAL then
        (if ndx < length (dtvs_globals m) then map_option dtsv_var (dtvs_globals m ! ndx) else None)
      else if scope = DIFV_SCOPE_THREAD then
        (if ndx < length (dtvs_tlocals m) then Some (dtvs_tlocals m ! ndx) else None)
      else
        (if ndx < length (dtvs_locals m) then map_option dtsv_var (dtvs_locals m ! ndx) else None))"

definition check_var :: "u64 \<Rightarrow> mach \<Rightarrow> dtrace_difv \<Rightarrow> nat" where
  "check_var dtrace_global_maxsize m v =
     (let vid = unat (dtdv_id v); vt = dtdv_type v in
      if dtdv_scope v \<noteq> DIFV_SCOPE_GLOBAL \<and> dtdv_scope v \<noteq> DIFV_SCOPE_THREAD \<and>
         dtdv_scope v \<noteq> DIFV_SCOPE_LOCAL then 1
      else if dtdv_kind v \<noteq> DIFV_KIND_ARRAY \<and> dtdv_kind v \<noteq> DIFV_KIND_SCALAR then 1
      else if vid > DIF_VARIABLE_MAX then 1
      else if vid < DIF_VAR_OTHER_UBASE then 0
      else if DIF_TF_BYREF vt \<and> dtdt_size vt = 0 then 1
      else if DIF_TF_BYREF vt \<and> dtdv_scope v = DIFV_SCOPE_GLOBAL \<and>
         ucast (dtdt_size vt) > dtrace_global_maxsize then 1
      else
        (case existing_var m (dtdv_scope v) (vid - DIF_VAR_OTHER_UBASE) of
           None \<Rightarrow> 0
         | Some ex \<Rightarrow>
             if dtdv_id ex = 0 then 0
             else
               (let k = err (dtdv_kind ex \<noteq> dtdv_kind v); et = dtdv_type ex in
                if dtdt_flags vt \<noteq> dtdt_flags et then k + 1
                else if dtdt_size vt \<noteq> 0 \<and> dtdt_size vt \<noteq> dtdt_size et then k + 1
                else k)))"

fun check_vars :: "u64 \<Rightarrow> mach \<Rightarrow> dtrace_difv list \<Rightarrow> nat" where
  "check_vars gmax m [] = 0"
| "check_vars gmax m (v # vs) =
     (let e = check_var gmax m v in if e = 0 then check_vars gmax m vs else e)"

text \<open>
  \<open>cr\<close> is the consumer's visibility (\<^verbatim>\<open>dcr_visible\<close>), or \<open>None\<close> when there are no credentials (a
  helper). The return type is checked also after an error in the text.
\<close>

abbreviation (input) DTRACE_CRV_KERNEL :: u32 where "DTRACE_CRV_KERNEL \<equiv> 2"

definition kcheckload :: "u32 option \<Rightarrow> bool" where
  "kcheckload cr = (case cr of None \<Rightarrow> True | Some dcr_visible \<Rightarrow> dcr_visible AND DTRACE_CRV_KERNEL = 0)"

definition dtrace_difo_validate ::
  "u64 \<Rightarrow> mach \<Rightarrow> nat \<Rightarrow> u32 option \<Rightarrow> dtrace_difo \<Rightarrow> nat \<times> dtrace_difo" where
  "dtrace_difo_validate gmax m nregs cr dp =
     (let dp = dp\<lparr>dtdo_destructive := False\<rparr>;
          (e, dp) = validate_text (kcheckload cr) nregs (length (dtdo_buf dp)) 0 dp;
          e = e + check_last dp + check_rtype dp
      in (if e = 0 then check_vars gmax m (dtdo_vartab dp) else e, dp))"

section \<open>Helpers and predicate caching\<close>

definition helper_ops :: "dif_op list" where
  "helper_ops = [
     DIF_OP_OR, DIF_OP_XOR, DIF_OP_AND, DIF_OP_SLL, DIF_OP_SRL, DIF_OP_SRA, DIF_OP_SUB,
     DIF_OP_ADD, DIF_OP_MUL, DIF_OP_SDIV, DIF_OP_UDIV, DIF_OP_SREM, DIF_OP_UREM, DIF_OP_COPYS,
     DIF_OP_NOT, DIF_OP_MOV, DIF_OP_RLDSB, DIF_OP_RLDSH, DIF_OP_RLDSW, DIF_OP_RLDUB,
     DIF_OP_RLDUH, DIF_OP_RLDUW, DIF_OP_RLDX, DIF_OP_ULDSB, DIF_OP_ULDSH, DIF_OP_ULDSW,
     DIF_OP_ULDUB, DIF_OP_ULDUH, DIF_OP_ULDUW, DIF_OP_ULDX, DIF_OP_STB, DIF_OP_STH, DIF_OP_STW,
     DIF_OP_STX, DIF_OP_ALLOCS, DIF_OP_CMP, DIF_OP_SCMP, DIF_OP_TST, DIF_OP_BA, DIF_OP_BE,
     DIF_OP_BNE, DIF_OP_BG, DIF_OP_BGU, DIF_OP_BGE, DIF_OP_BGEU, DIF_OP_BL, DIF_OP_BLU,
     DIF_OP_BLE, DIF_OP_BLEU, DIF_OP_RET, DIF_OP_NOP, DIF_OP_POPTS, DIF_OP_FLUSHTS,
     DIF_OP_SETX, DIF_OP_SETS, DIF_OP_LDGA, DIF_OP_LDLS, DIF_OP_STGS, DIF_OP_STLS,
     DIF_OP_PUSHTR, DIF_OP_PUSHTV]"

definition helper_subrs :: "nat list" where
  "helper_subrs = [
     DIF_SUBR_ALLOCA, DIF_SUBR_BCOPY, DIF_SUBR_COPYIN, DIF_SUBR_COPYINTO, DIF_SUBR_COPYINSTR,
     DIF_SUBR_INDEX, DIF_SUBR_INET_NTOA, DIF_SUBR_INET_NTOA6, DIF_SUBR_INET_NTOP,
     DIF_SUBR_LLTOSTR, DIF_SUBR_RINDEX, DIF_SUBR_STRCHR, DIF_SUBR_STRJOIN, DIF_SUBR_STRRCHR,
     DIF_SUBR_STRSTR, DIF_SUBR_HTONS, DIF_SUBR_HTONL, DIF_SUBR_HTONLL, DIF_SUBR_NTOHS,
     DIF_SUBR_NTOHL, DIF_SUBR_NTOHLL]"

definition helper_var :: "nat \<Rightarrow> bool" where
  "helper_var v \<longleftrightarrow>
     v \<ge> DIF_VAR_OTHER_UBASE \<or> (v \<ge> DIF_VAR_ARG0 \<and> v \<le> DIF_VAR_ARG9) \<or>
     v = DIF_VAR_CURTHREAD \<or> v = DIF_VAR_PID \<or> v = DIF_VAR_PPID \<or> v = DIF_VAR_TID \<or>
     v = DIF_VAR_EXECNAME \<or> v = DIF_VAR_ZONENAME \<or> v = DIF_VAR_UID \<or> v = DIF_VAR_GID"

text \<open>
  Every other opcode is an error: dynamic variables, thread-local variables, unrestricted loads,
  translators.
\<close>

definition helper_instr :: "dif_instr \<Rightarrow> nat" where
  "helper_instr i =
     (case DIF_INSTR_OP i of
        None \<Rightarrow> 1
      | Some op \<Rightarrow>
          if op \<in> set helper_ops then 0
          else if op = DIF_OP_LDGS then err (\<not> helper_var (DIF_INSTR_VAR i))
          else if op = DIF_OP_CALL then err (DIF_INSTR_SUBR i \<notin> set helper_subrs)
          else 1)"

definition dtrace_difo_validate_helper :: "dtrace_difo \<Rightarrow> nat" where
  "dtrace_difo_validate_helper dp = sum_list (map helper_instr (dtdo_buf dp))"

definition cacheable_var :: "dtrace_difv \<Rightarrow> bool" where
  "cacheable_var v \<longleftrightarrow>
     dtdv_scope v \<noteq> DIFV_SCOPE_GLOBAL \<or>
     unat (dtdv_id v) \<in> {DIF_VAR_CURTHREAD, DIF_VAR_PID, DIF_VAR_TID, DIF_VAR_EXECNAME, DIF_VAR_ZONENAME}"

definition cacheable_instr :: "dif_instr \<Rightarrow> bool" where
  "cacheable_instr i \<longleftrightarrow>
     (let n = unat (drop_bit 24 i AND 0xFF) in
      \<not> ((n \<ge> op_code DIF_OP_LDSB \<and> n \<le> op_code DIF_OP_LDX) \<or>
         (n \<ge> op_code DIF_OP_ULDSB \<and> n \<le> op_code DIF_OP_ULDX) \<or>
         (n \<ge> op_code DIF_OP_RLDSB \<and> n \<le> op_code DIF_OP_RLDX) \<or>
         n = op_code DIF_OP_LDGA \<or> n = op_code DIF_OP_STTS))"

definition dtrace_difo_cacheable :: "dtrace_difo option \<Rightarrow> bool" where
  "dtrace_difo_cacheable dp =
     (case dp of
        None \<Rightarrow> False
      | Some dp \<Rightarrow> list_all cacheable_var (dtdo_vartab dp) \<and> list_all cacheable_instr (dtdo_buf dp))"

section \<open>Lemmas\<close>

lemma err_0 [simp]: "err b = 0 \<longleftrightarrow> \<not> b"
  by (simp add: err_def)

lemma field_bounds: "DIF_INSTR_R1 i < 256" "DIF_INSTR_R2 i < 256" "DIF_INSTR_RD i < 256"
  by (auto simp: DIF_INSTR_R1_def DIF_INSTR_R2_def DIF_INSTR_RD_def
      intro!: le_less_trans [OF word_and_le1 [THEN iffD1 [OF word_le_nat_alt]]])

lemma restricted_op_simps [simp]:
  "restricted_op DIF_OP_LDSB = DIF_OP_RLDSB" "restricted_op DIF_OP_LDSH = DIF_OP_RLDSH"
  "restricted_op DIF_OP_LDSW = DIF_OP_RLDSW" "restricted_op DIF_OP_LDUB = DIF_OP_RLDUB"
  "restricted_op DIF_OP_LDUH = DIF_OP_RLDUH" "restricted_op DIF_OP_LDUW = DIF_OP_RLDUW"
  "restricted_op DIF_OP_LDX = DIF_OP_RLDX"
  by (simp_all add: restricted_op_def dif_ops_def)

lemma LOAD_fields [simp]:
  "DIF_INSTR_OP (DIF_INSTR_LOAD op (DIF_INSTR_R1 i) (DIF_INSTR_RD i)) = Some op"
  "DIF_INSTR_R1 (DIF_INSTR_LOAD op (DIF_INSTR_R1 i) (DIF_INSTR_RD i)) = DIF_INSTR_R1 i"
  "DIF_INSTR_R2 (DIF_INSTR_LOAD op (DIF_INSTR_R1 i) (DIF_INSTR_RD i)) = 0"
  "DIF_INSTR_RD (DIF_INSTR_LOAD op (DIF_INSTR_R1 i) (DIF_INSTR_RD i)) = DIF_INSTR_RD i"
  using field_bounds [of i] by (simp_all add: DIF_INSTR_LOAD_def FMT_fields)

lemma rewrite_instr_fields:
  "DIF_INSTR_OP (rewrite_instr kc i) =
     map_option (\<lambda>op. if unrestricted_load op \<and> kc then restricted_op op else op) (DIF_INSTR_OP i)"
  "DIF_INSTR_R1 (rewrite_instr kc i) = DIF_INSTR_R1 i"
  "DIF_INSTR_RD (rewrite_instr kc i) = DIF_INSTR_RD i"
  by (auto simp: rewrite_instr_def split: option.splits)

lemma rewrite_instr_id: "(\<And>op. DIF_INSTR_OP i = Some op \<Longrightarrow> \<not> (unrestricted_load op \<and> kc)) \<Longrightarrow> rewrite_instr kc i = i"
  by (auto simp: rewrite_instr_def split: option.splits)

lemma check_rewrite:
  assumes "check_instr nregs dp pc i = 0"
  shows "check_instr nregs dp pc (rewrite_instr kc i) = 0"
proof (cases "\<exists>op. DIF_INSTR_OP i = Some op \<and> unrestricted_load op \<and> kc")
  case False
  then show ?thesis using assms rewrite_instr_id [of i kc] by auto
next
  case True
  then obtain op where op: "DIF_INSTR_OP i = Some op" "unrestricted_load op" kc by blast
  have "DIF_INSTR_R2 (rewrite_instr kc i) = 0"
    using op by (simp add: rewrite_instr_def)
  then show ?thesis
    using op assms by (auto simp: unrestricted_load_def check_instr_def rewrite_instr_fields check_r2_def)
qed

lemma check_instr_cong:
  "length (dtdo_buf dp') = length (dtdo_buf dp) \<Longrightarrow> dtdo_inttab dp' = dtdo_inttab dp \<Longrightarrow>
   dtdo_strlen dp' = dtdo_strlen dp \<Longrightarrow> check_instr nregs dp' = check_instr nregs dp"
  by (intro ext) (simp add: check_instr_def check_setx_def check_sets_def cong: option.case_cong dif_op.case_cong)

text \<open>What a successful pass over the text has established and done.\<close>

lemma validate_text_ok:
  assumes "validate_text kc nregs n p dp = (0, dp')" "p + n = length (dtdo_buf dp)"
  shows "dp' = dp\<lparr>dtdo_buf := take p (dtdo_buf dp) @ map (rewrite_instr kc) (drop p (dtdo_buf dp)),
      dtdo_destructive := dtdo_destructive dp \<or> list_ex destructive_instr (drop p (dtdo_buf dp))\<rparr> \<and>
    (\<forall>j. p \<le> j \<and> j < length (dtdo_buf dp) \<longrightarrow> check_instr nregs dp j (dtdo_buf dp ! j) = 0)"
  using assms
proof (induction n arbitrary: p dp)
  case (Suc n)
  let ?i = "dtdo_buf dp ! p"
  define dp1 where "dp1 = dp\<lparr>dtdo_buf := (dtdo_buf dp)[p := rewrite_instr kc ?i],
    dtdo_destructive := dtdo_destructive dp \<or> destructive_instr ?i\<rparr>"
  have p: "p < length (dtdo_buf dp)" using Suc.prems(2) by simp
  have ok: "check_instr nregs dp p ?i = 0" and rec: "validate_text kc nregs n (p + 1) dp1 = (0, dp')"
    using Suc.prems(1) by (auto simp: dp1_def Let_def split: if_splits)
  have chk: "check_instr nregs dp1 = check_instr nregs dp"
    by (rule check_instr_cong) (simp_all add: dp1_def)
  have d: "drop p (dtdo_buf dp) = ?i # drop (Suc p) (dtdo_buf dp)"
    using p by (rule Cons_nth_drop_Suc [symmetric])
  have t: "take (Suc p) (dtdo_buf dp1) = take p (dtdo_buf dp) @ [rewrite_instr kc ?i]"
    using p by (simp add: dp1_def take_Suc_conv_app_nth)
  have *: "p + 1 + n = length (dtdo_buf dp1)" using Suc.prems(2) by (simp add: dp1_def)
  note IH = Suc.IH [OF rec *, unfolded chk]
  have "check_instr nregs dp j (dtdo_buf dp ! j) = 0" if "p \<le> j" "j < length (dtdo_buf dp)" for j
  proof (cases "j = p")
    case False
    then have "dtdo_buf dp1 ! j = dtdo_buf dp ! j" "length (dtdo_buf dp1) = length (dtdo_buf dp)"
      by (simp_all add: dp1_def)
    then show ?thesis using IH that False by (metis Suc_eq_plus1 Suc_leI le_neq_implies_less)
  qed (simp add: ok)
  moreover have "dp' = dp\<lparr>dtdo_buf := take p (dtdo_buf dp) @ map (rewrite_instr kc) (drop p (dtdo_buf dp)),
      dtdo_destructive := dtdo_destructive dp \<or> list_ex destructive_instr (drop p (dtdo_buf dp))\<rparr>"
    using IH unfolding Suc_eq_plus1 [symmetric] t d by (simp add: dp1_def)
  ultimately show ?case by blast
qed simp

text \<open>The instructions of an object that validation accepts, in terms of the object it returns.\<close>

definition difo_text_valid :: "nat \<Rightarrow> dtrace_difo \<Rightarrow> bool" where
  "difo_text_valid nregs dp \<longleftrightarrow>
     (\<forall>j<length (dtdo_buf dp). check_instr nregs dp j (dtdo_buf dp ! j) = 0) \<and>
     (dtdo_buf dp \<noteq> [] \<longrightarrow> DIF_INSTR_OP (last (dtdo_buf dp)) = Some DIF_OP_RET)"

lemma validate_ok:
  assumes "dtrace_difo_validate gmax m nregs cr dp = (0, dp')"
  shows "dp' = dp\<lparr>dtdo_buf := map (rewrite_instr (kcheckload cr)) (dtdo_buf dp),
      dtdo_destructive := list_ex destructive_instr (dtdo_buf dp)\<rparr>"
    "difo_text_valid nregs dp" "difo_text_valid nregs dp'"
    "check_rtype dp = 0" "check_vars gmax m (dtdo_vartab dp) = 0"
proof -
  let ?dp = "dp\<lparr>dtdo_destructive := False\<rparr>"
  have "validate_text (kcheckload cr) nregs (length (dtdo_buf ?dp)) 0 ?dp = (0, dp')"
    and l: "check_last dp' = 0" and r: "check_rtype dp' = 0" and v: "check_vars gmax m (dtdo_vartab dp') = 0"
    using assms by (auto simp: dtrace_difo_validate_def Let_def split: prod.splits if_splits)
  from validate_text_ok [OF this(1)]
  have eq: "dp' = dp\<lparr>dtdo_buf := map (rewrite_instr (kcheckload cr)) (dtdo_buf dp),
      dtdo_destructive := list_ex destructive_instr (dtdo_buf dp)\<rparr>"
    and chk: "\<And>j. j < length (dtdo_buf dp) \<Longrightarrow> check_instr nregs ?dp j (dtdo_buf dp ! j) = 0"
    by simp_all
  have c: "check_instr nregs ?dp = check_instr nregs dp" "check_instr nregs dp' = check_instr nregs dp"
    by (rule check_instr_cong; simp add: eq)+
  have last: "dtdo_buf dp \<noteq> [] \<Longrightarrow> DIF_INSTR_OP (last (dtdo_buf dp')) = Some DIF_OP_RET"
    using l by (auto simp: check_last_def eq last_conv_nth)
  show "difo_text_valid nregs dp'"
    using chk last by (auto simp: difo_text_valid_def c(1) c(2) [unfolded eq] eq check_rewrite)
  have "DIF_INSTR_OP (last (dtdo_buf dp)) = Some DIF_OP_RET" if "dtdo_buf dp \<noteq> []"
    using last [OF that] that
    by (auto simp: eq last_map rewrite_instr_fields unrestricted_load_def split: if_splits)
  then show "difo_text_valid nregs dp"
    using chk by (auto simp: difo_text_valid_def c)
  show "check_rtype dp = 0" "check_vars gmax m (dtdo_vartab dp) = 0"
    using r v by (simp_all add: eq check_rtype_def)
  show "dp' = dp\<lparr>dtdo_buf := map (rewrite_instr (kcheckload cr)) (dtdo_buf dp),
      dtdo_destructive := list_ex destructive_instr (dtdo_buf dp)\<rparr>" by (rule eq)
qed

lemma validate_text_complete:
  assumes "p + n = length (dtdo_buf dp)"
    and "\<And>j. p \<le> j \<Longrightarrow> j < length (dtdo_buf dp) \<Longrightarrow> check_instr nregs dp j (dtdo_buf dp ! j) = 0"
  shows "fst (validate_text kc nregs n p dp) = 0"
  using assms
proof (induction n arbitrary: p dp)
  case (Suc n)
  let ?i = "dtdo_buf dp ! p"
  define dp1 where "dp1 = dp\<lparr>dtdo_buf := (dtdo_buf dp)[p := rewrite_instr kc ?i],
    dtdo_destructive := dtdo_destructive dp \<or> destructive_instr ?i\<rparr>"
  have chk: "check_instr nregs dp1 = check_instr nregs dp"
    by (rule check_instr_cong) (simp_all add: dp1_def)
  have "fst (validate_text kc nregs n (Suc p) dp1) = 0"
  proof (rule Suc.IH)
    fix j assume "Suc p \<le> j" "j < length (dtdo_buf dp1)"
    then show "check_instr nregs dp1 j (dtdo_buf dp1 ! j) = 0"
      unfolding chk using Suc.prems(2) [of j] by (simp add: dp1_def)
  qed (use Suc.prems(1) in \<open>simp add: dp1_def\<close>)
  then show ?case
    using Suc.prems by (simp add: Let_def dp1_def)
qed simp

lemma validate_complete:
  assumes "difo_text_valid nregs dp" "check_rtype dp = 0" "check_vars gmax m (dtdo_vartab dp) = 0"
  shows "fst (dtrace_difo_validate gmax m nregs cr dp) = 0"
proof -
  let ?dp = "dp\<lparr>dtdo_destructive := False\<rparr>"
  obtain dp' where v: "validate_text (kcheckload cr) nregs (length (dtdo_buf ?dp)) 0 ?dp = (0, dp')"
    using validate_text_complete [of 0 "length (dtdo_buf dp)" ?dp nregs "kcheckload cr"] assms(1)
      check_instr_cong [of ?dp dp nregs]
    by (cases "validate_text (kcheckload cr) nregs (length (dtdo_buf ?dp)) 0 ?dp")
      (auto simp: difo_text_valid_def)
  from validate_text_ok [OF v] have eq: "dp' = dp\<lparr>dtdo_buf := map (rewrite_instr (kcheckload cr)) (dtdo_buf dp),
      dtdo_destructive := list_ex destructive_instr (dtdo_buf dp)\<rparr>" by simp
  have "check_last dp' = 0"
    using assms(1)
    by (cases "dtdo_buf dp = []")
      (auto simp: difo_text_valid_def check_last_def eq rewrite_instr_fields last_conv_nth
        unrestricted_load_def)
  then show ?thesis
    using v assms by (simp add: dtrace_difo_validate_def Let_def eq check_rtype_def)
qed

lemma rewrite_idem: "rewrite_instr kc (rewrite_instr kc i) = rewrite_instr kc i"
  by (rule rewrite_instr_id) (auto simp: rewrite_instr_fields unrestricted_load_def split: if_splits)

lemma destructive_rewrite: "destructive_instr (rewrite_instr kc i) = destructive_instr i"
  using rewrite_instr_id [of i kc]
  by (cases "\<exists>op. DIF_INSTR_OP i = Some op \<and> unrestricted_load op \<and> kc")
    (auto simp: destructive_instr_def rewrite_instr_fields unrestricted_load_def)

section \<open>Properties\<close>

text \<open>
  \<^bold>\<open>C17.\<close> Validation for a consumer without the kernel visibility bit, or for a helper, leaves none of the
  seven unchecked loads in the object: each has become the checked load of the same size and sign with the
  same registers, and every other instruction is unchanged.
\<close>

theorem dtrace_difo_validate_restricts_loads:
  assumes "dtrace_difo_validate gmax m nregs cr dp = (0, dp')" "j < length (dtdo_buf dp)"
    and "cr = None \<or> (\<exists>visible. cr = Some visible \<and> visible AND DTRACE_CRV_KERNEL = 0)"
    and "DIF_INSTR_OP (dtdo_buf dp ! j) = Some op"
  shows "length (dtdo_buf dp') = length (dtdo_buf dp) \<and>
    (let i = dtdo_buf dp ! j; i' = dtdo_buf dp' ! j in
     case map_of [(DIF_OP_LDSB, DIF_OP_RLDSB), (DIF_OP_LDSH, DIF_OP_RLDSH), (DIF_OP_LDSW, DIF_OP_RLDSW),
         (DIF_OP_LDUB, DIF_OP_RLDUB), (DIF_OP_LDUH, DIF_OP_RLDUH), (DIF_OP_LDUW, DIF_OP_RLDUW),
         (DIF_OP_LDX, DIF_OP_RLDX)] op of
       Some op' \<Rightarrow> DIF_INSTR_OP i' = Some op' \<and> DIF_INSTR_R1 i' = DIF_INSTR_R1 i \<and> DIF_INSTR_RD i' = DIF_INSTR_RD i
     | None \<Rightarrow> i' = i)"
proof -
  have kc: "kcheckload cr" using assms(3) by (auto simp: kcheckload_def)
  have len: "length (dtdo_buf dp') = length (dtdo_buf dp)"
    and i': "dtdo_buf dp' ! j = rewrite_instr (kcheckload cr) (dtdo_buf dp ! j)"
    using validate_ok(1) [OF assms(1)] assms(2) by simp_all
  show ?thesis
  proof (cases "unrestricted_load op")
    case True
    then show ?thesis
      using len i' kc assms(4) by (auto simp: Let_def rewrite_instr_fields) (auto simp: unrestricted_load_def)
  next
    case False
    then have "dtdo_buf dp' ! j = dtdo_buf dp ! j" unfolding i' using assms(4) False by (intro rewrite_instr_id) simp
    moreover have "op \<notin> {DIF_OP_LDSB, DIF_OP_LDSH, DIF_OP_LDSW, DIF_OP_LDUB, DIF_OP_LDUH, DIF_OP_LDUW, DIF_OP_LDX}"
      using False by (auto simp: unrestricted_load_def)
    ultimately show ?thesis using len by (auto simp: Let_def)
  qed
qed

text \<open>A load and a return.\<close>

definition example_difo :: dtrace_difo where
  "example_difo = difo0\<lparr>dtdo_buf := [DIF_INSTR_FMT DIF_OP_LDX 1 0 2, DIF_INSTR_FMT DIF_OP_RET 0 0 2]\<rparr>"

lemma example_difo_validates:
  "dtrace_difo_validate gmax m 8 None example_difo =
     (0, difo0\<lparr>dtdo_buf := [DIF_INSTR_FMT DIF_OP_RLDX 1 0 2, DIF_INSTR_FMT DIF_OP_RET 0 0 2]\<rparr>)"
  by (simp add: dtrace_difo_validate_def example_difo_def difo0_def diftype0_def kcheckload_def
      check_instr_def FMT_fields check_r2_def check_ret_def rewrite_instr_def unrestricted_load_def
      DIF_INSTR_LOAD_def destructive_instr_def check_last_def check_rtype_def err_def DIF_TF_BYREF_def)

theorem dtrace_difo_validate_restricts_loads_witness:
  "DIF_INSTR_OP (dtdo_buf (snd (dtrace_difo_validate 0 mach0 8 None example_difo)) ! 0) = Some DIF_OP_RLDX"
  using dtrace_difo_validate_restricts_loads [OF example_difo_validates [of 0 mach0], of 0 DIF_OP_LDX]
  by (simp add: example_difo_validates Let_def) (simp add: example_difo_def FMT_fields)

text \<open>
  \<^bold>\<open>C18.\<close> Validation is idempotent: an object that validation has accepted and rewritten is accepted again,
  and the second pass changes nothing.
\<close>

theorem dtrace_difo_validate_idempotent:
  assumes "dtrace_difo_validate gmax m nregs cr dp = (0, dp')"
  shows "dtrace_difo_validate gmax m nregs cr dp' = (0, dp')"
proof -
  note ok = validate_ok [OF assms]
  have "fst (dtrace_difo_validate gmax m nregs cr dp') = 0"
    using ok by (intro validate_complete) (simp_all add: check_rtype_def)
  then obtain dp'' where v: "dtrace_difo_validate gmax m nregs cr dp' = (0, dp'')"
    by (metis eq_fst_iff)
  have "dp'' = dp'"
    using validate_ok(1) [OF v] ok(1)
    by (simp add: rewrite_idem destructive_rewrite list_ex_iff comp_def)
  then show ?thesis using v by simp
qed

theorem dtrace_difo_validate_idempotent_witness:
  "dtrace_difo_validate 0 mach0 8 None (snd (dtrace_difo_validate 0 mach0 8 None example_difo))
     = dtrace_difo_validate 0 mach0 8 None example_difo"
  using dtrace_difo_validate_idempotent [OF example_difo_validates [of 0 mach0]]
  by (simp add: example_difo_validates)

end
