(* ===== verification/DT_Frame.thy ===== *)
theory DT_Frame
  imports DT_Emulate DT_Validate
begin

text \<open>
  Control flow of the emulator on validated text. An instruction that passes
  \<^verbatim>\<open>dtrace_difo_validate\<close> keeps the size of the register file and of the tuple stack, never writes
  \<^verbatim>\<open>%r0\<close>, and moves the program counter forward and not past the end of the text. So the loop of
  \<^verbatim>\<open>dtrace_dif_emulate\<close> ends after at most \<^verbatim>\<open>dtdo_len\<close> iterations.
\<close>

definition emu_keeps :: "emu \<Rightarrow> emu \<Rightarrow> bool" where
  "emu_keeps e e' \<longleftrightarrow>
     length (regs e') = length (regs e) \<and> regs e' ! 0 = regs e ! 0 \<and>
     length (tupregs e') = length (tupregs e) \<and> (ttop e \<le> DIF_DTR_NREGS \<longrightarrow> ttop e' \<le> DIF_DTR_NREGS)"

definition emu_frame :: "emu \<Rightarrow> emu \<Rightarrow> bool" where
  "emu_frame e e' \<longleftrightarrow> emu_keeps e e' \<and> pc e' = pc e \<and> opc e' = opc e"

lemma emu_keeps_refl [simp]: "emu_keeps e e"
  by (simp add: emu_keeps_def)

lemma emu_keeps_trans: "emu_keeps e e' \<Longrightarrow> emu_keeps e' e'' \<Longrightarrow> emu_keeps e e''"
  by (simp add: emu_keeps_def)

lemma emu_keeps_upd [simp]:
  "emu_keeps e (e\<lparr>mach := m\<rparr>)" "emu_keeps e (e\<lparr>pc := p\<rparr>)" "emu_keeps e (emu_flag f e)" "emu_keeps e (emu_fault f a e)"
  "emu_keeps e (e\<lparr>rval := v, pc := p\<rparr>)"
  by (simp_all add: emu_keeps_def emu_flag_def emu_fault_def)

lemma rset_keeps: "rset e rd v = Some e' \<Longrightarrow> rd \<noteq> 0 \<Longrightarrow> emu_frame e e'"
  by (auto simp: rset_def emu_frame_def emu_keeps_def split: if_splits)

lemma tset_keeps: "tset e i k = Some e' \<Longrightarrow> emu_frame e e' \<and> regs e' = regs e \<and> ttop e' = ttop e \<and> mach e' = mach e"
  by (auto simp: tset_def emu_frame_def emu_keeps_def split: if_splits)

lemma frame_mach: "emu_frame e (e\<lparr>mach := m\<rparr>)"
  by (simp add: emu_frame_def)

lemmas exec_simps = Option.bind_eq_Some_conv emu_frame_def emu_keeps_def rset_def rget_def tset_def emu_flag_def emu_fault_def

lemma exec_alu_keeps: "exec_alu op r1 r2 rd e = Some e' \<Longrightarrow> rd \<noteq> 0 \<Longrightarrow> emu_frame e e'"
  by (auto simp: exec_alu_def exec_simps split: if_splits)

lemma exec_move_keeps:
  "exec_not r1 rd e = Some e' \<Longrightarrow> rd \<noteq> 0 \<Longrightarrow> emu_frame e e'"
  "exec_mov r1 rd e = Some e' \<Longrightarrow> rd \<noteq> 0 \<Longrightarrow> emu_frame e e'"
  "exec_cmp r1 r2 e = Some e' \<Longrightarrow> emu_frame e e'"
  "exec_tst r1 e = Some e' \<Longrightarrow> emu_frame e e'"
  by (auto simp: exec_not_def exec_mov_def exec_cmp_def exec_tst_def exec_simps Let_def split: if_splits)

lemma exec_mem_keeps:
  "exec_load h op r1 rd e = Some e' \<Longrightarrow> rd \<noteq> 0 \<Longrightarrow> emu_frame e e'"
  "exec_uload h op r1 rd e = Some e' \<Longrightarrow> rd \<noteq> 0 \<Longrightarrow> emu_frame e e'"
  "exec_store n r1 rd e = Some e' \<Longrightarrow> emu_frame e e'"
  "exec_copys h r1 r2 rd e = Some e' \<Longrightarrow> emu_frame e e'"
  "exec_allocs r1 rd e = Some e' \<Longrightarrow> rd \<noteq> 0 \<Longrightarrow> emu_frame e e'"
  by (auto simp: exec_load_def exec_uload_def exec_store_def exec_copys_def exec_allocs_def exec_simps Let_def
      elim!: do_elims split: if_split_asm prod.splits)

lemma exec_set_keeps:
  "exec_setx d j rd e = Some e' \<Longrightarrow> rd \<noteq> 0 \<Longrightarrow> emu_frame e e'"
  "exec_sets d j rd e = Some e' \<Longrightarrow> rd \<noteq> 0 \<Longrightarrow> emu_frame e e'"
  "exec_variable h v ndx rd e = Some e' \<Longrightarrow> rd \<noteq> 0 \<Longrightarrow> emu_frame e e'"
  by (auto simp: exec_setx_def exec_sets_def exec_variable_def exec_simps split_beta split: if_splits)

lemma exec_scmp_keeps: "exec_scmp h r1 r2 e = Some e' \<Longrightarrow> emu_frame e e'"
  by (auto simp: exec_scmp_def Let_def emu_frame_def emu_keeps_def elim!: do_elims split: if_split_asm)

lemma exec_global_keeps:
  "exec_ldgs h i rd e = Some e' \<Longrightarrow> rd \<noteq> 0 \<Longrightarrow> emu_frame e e'"
  "exec_stgs h i rd e = Some e' \<Longrightarrow> emu_frame e e'"
  by (auto simp: exec_ldgs_def exec_stgs_def Let_def elim!: do_elims split: if_split_asm
      intro: rset_keeps exec_set_keeps frame_mach)

lemma exec_local_keeps:
  "exec_ldls h i rd e = Some e' \<Longrightarrow> rd \<noteq> 0 \<Longrightarrow> emu_frame e e'"
  "exec_stls h i rd e = Some e' \<Longrightarrow> emu_frame e e'"
  by (auto simp: exec_ldls_def exec_stls_def Let_def elim!: do_elims split: if_split_asm
      intro: rset_keeps frame_mach)

lemmas exec_var_keeps = exec_set_keeps exec_scmp_keeps exec_global_keeps exec_local_keeps

lemma dynvar_load_keeps:
  "dynvar_load rd v dvar e = Some e' \<Longrightarrow> rd \<noteq> 0 \<Longrightarrow> emu_frame e e'"
  by (auto simp: dynvar_load_def exec_simps split: if_splits option.splits)

lemma dynvar_store_keeps:
  "dynvar_store h x v dvar e = Some e' \<Longrightarrow> emu_frame e e'"
  by (auto simp: dynvar_store_def exec_simps split: if_splits option.splits)

lemma assoc_key_keeps:
  "assoc_key h tls i e = Some (v, key, e') \<Longrightarrow> emu_frame e e' \<and> regs e' = regs e"
  by (auto simp: assoc_key_def Let_def exec_simps split: if_splits)

lemma exec_ldts_keeps:
  assumes "exec_ldts h i rd e = Some e'" "rd \<noteq> 0"
  shows "emu_frame e e'"
proof -
  obtain j k e1 e2 v dvar m where "tset e 8 (of_nat j, 0) = Some e1" "tset e1 9 (k, 0) = Some e2"
    and "dynvar_load rd v dvar (e2\<lparr>mach := m\<rparr>) = Some e'"
    using assms(1) by (auto simp: exec_ldts_def Let_def split_beta Option.bind_eq_Some_conv)
  then show ?thesis
    using tset_keeps [of e 8] tset_keeps [of e1 9] dynvar_load_keeps [OF _ assms(2)]
    by (auto simp: emu_frame_def emu_keeps_def)
qed

lemma exec_stts_keeps:
  assumes "exec_stts h i rd e = Some e'"
  shows "emu_frame e e'"
proof -
  obtain j k e1 e2 v x dvar m where "tset e 8 (of_nat j, 0) = Some e1" "tset e1 9 (k, 0) = Some e2"
    and "dynvar_store h x v dvar (e2\<lparr>mach := m\<lparr>t_predcache := 0\<rparr>\<rparr>) = Some e'"
    using assms(1) by (auto simp: exec_stts_def Let_def split_beta Option.bind_eq_Some_conv)
  then show ?thesis
    using tset_keeps [of e 8] tset_keeps [of e1 9] dynvar_store_keeps
    by (auto simp: emu_frame_def emu_keeps_def)
qed

lemma exec_ldaa_keeps:
  assumes "exec_ldaa h tls i rd e = Some e'" "rd \<noteq> 0"
  shows "emu_frame e e'"
proof -
  obtain j v key e1 dvar m where "assoc_key h tls j e = Some (v, key, e1)"
    and "dynvar_load rd v dvar (e1\<lparr>mach := m\<rparr>) = Some e'"
    using assms(1) by (auto simp: exec_ldaa_def Let_def split_beta Option.bind_eq_Some_conv)
  then show ?thesis
    using assoc_key_keeps [of h tls j e] dynvar_load_keeps [OF _ assms(2)]
    by (auto simp: emu_frame_def emu_keeps_def)
qed

lemma exec_staa_keeps:
  assumes "exec_staa h tls i rd e = Some e'"
  shows "emu_frame e e'"
proof -
  obtain j v key x e1 dvar m where "assoc_key h tls j e = Some (v, key, e1)"
    and "dynvar_store h x v dvar (e1\<lparr>mach := m\<rparr>) = Some e'"
    using assms(1) by (auto simp: exec_staa_def Let_def split_beta Option.bind_eq_Some_conv)
  then show ?thesis
    using assoc_key_keeps [of h tls j e] dynvar_store_keeps
    by (auto simp: emu_frame_def emu_keeps_def)
qed

lemma exec_tuple_keeps:
  "exec_pushtr h r1 r2 rd e = Some e' \<Longrightarrow> emu_frame e e'"
  "exec_pushtv rd e = Some e' \<Longrightarrow> emu_frame e e'"
  "emu_frame e (exec_popts e)"
  "exec_call h subr rd e = Some e' \<Longrightarrow> rd \<noteq> 0 \<Longrightarrow> emu_frame e e'"
  by (auto simp: exec_pushtr_def exec_pushtv_def exec_popts_def exec_call_def exec_simps Let_def
      split: if_splits prod.splits option.splits)

lemma exec_control_keeps:
  "emu_keeps e (exec_branch op i e) \<and> opc (exec_branch op i e) = opc e \<and>
   (pc (exec_branch op i e) = pc e \<or> pc (exec_branch op i e) = DIF_INSTR_LABEL i)"
  "exec_ret difo rd e = Some e' \<Longrightarrow> emu_keeps e e' \<and> opc e' = opc e \<and> pc e' = length (dtdo_buf difo)"
  by (auto simp: exec_branch_def exec_ret_def exec_simps split: if_splits)

lemmas exec_keeps = exec_alu_keeps exec_move_keeps exec_mem_keeps exec_var_keeps exec_ldts_keeps
  exec_stts_keeps exec_ldaa_keeps exec_staa_keeps
  exec_tuple_keeps(1,2,4)

lemmas check_defs = check_r3_def check_r2_def check_cmp_def check_tst_def check_branch_def check_ret_def
  check_none_def check_rd_def check_setx_def check_sets_def check_array_def check_ldvar_def check_stvar_def
  check_call_def check_pushtr_def check_pushtv_def

lemma frame_simps [simp]:
  "emu_frame e e" "emu_frame e (exec_popts e)" "emu_frame e (e\<lparr>ttop := 0\<rparr>)"
  by (simp_all add: exec_tuple_keeps(3)) (simp_all add: emu_frame_def emu_keeps_def)

lemma exec_ldta_keeps: "rset (emu_flag f e) rd v = Some e' \<Longrightarrow> rd \<noteq> 0 \<Longrightarrow> emu_frame e e'"
  by (auto simp: exec_simps split: if_splits)

definition emu_moves :: "nat \<Rightarrow> nat \<Rightarrow> emu \<Rightarrow> emu \<Rightarrow> bool" where
  "emu_moves p n e e' \<longleftrightarrow> emu_keeps e e' \<and> p < pc e' \<and> pc e' \<le> n \<and> opc e' = opc e"

lemma frame_moves: "emu_frame e e' \<Longrightarrow> pc e = Suc p \<Longrightarrow> p < n \<Longrightarrow> emu_moves p n e e'"
  by (simp add: emu_frame_def emu_moves_def)

lemma branch_moves:
  "pc e = Suc p \<Longrightarrow> p < n \<Longrightarrow> p < DIF_INSTR_LABEL i \<Longrightarrow> DIF_INSTR_LABEL i < n \<Longrightarrow> emu_moves p n e (exec_branch op i e)"
  using exec_control_keeps(1) [of e op i] by (auto simp: emu_moves_def)

lemma ret_moves: "exec_ret dp rd e = Some e' \<Longrightarrow> p < length (dtdo_buf dp) \<Longrightarrow> emu_moves p (length (dtdo_buf dp)) e e'"
  using exec_control_keeps(2) [of dp rd e e'] by (simp add: emu_moves_def)

lemma dif_exec_keeps:
  assumes "check_instr 8 dp p i = 0" "dif_exec h dp i e = Some e'" "pc e = Suc p" "p < length (dtdo_buf dp)"
  shows "emu_moves p (length (dtdo_buf dp)) e e'"
proof -
  obtain op where op: "DIF_INSTR_OP i = Some op"
    using assms(1) by (cases "DIF_INSTR_OP i") (auto simp: check_instr_def)
  show ?thesis
    using assms
    by (cases op; simp add: op check_instr_def dif_exec_def check_defs bind_eq_Some_conv)
      (auto dest: exec_keeps exec_ldta_keeps intro: frame_moves branch_moves ret_moves)
qed

definition emu_wf :: "emu \<Rightarrow> bool" where
  "emu_wf e \<longleftrightarrow> length (regs e) = DIF_DIR_NREGS \<and> regs e ! 0 = 0 \<and>
     length (tupregs e) = DIF_DTR_NREGS + 2 \<and> ttop e \<le> DIF_DTR_NREGS"

lemma emu_wf_keeps: "emu_wf e \<Longrightarrow> emu_keeps e e' \<Longrightarrow> emu_wf e'"
  by (simp add: emu_wf_def emu_keeps_def)

lemma dif_step_keeps:
  assumes "difo_text_valid 8 dp" "pc e < length (dtdo_buf dp)" "dif_step h dp e = Some e'"
  shows "emu_keeps e e'" "pc e < pc e'" "pc e' \<le> length (dtdo_buf dp)" "opc e' = pc e"
proof -
  let ?e = "e\<lparr>opc := pc e, pc := pc e + 1\<rparr>"
  have "emu_moves (pc e) (length (dtdo_buf dp)) ?e e'"
    using assms by (intro dif_exec_keeps) (auto simp: difo_text_valid_def dif_step_def)
  then show "emu_keeps e e'" "pc e < pc e'" "pc e' \<le> length (dtdo_buf dp)" "opc e' = pc e"
    by (simp_all add: emu_keeps_def emu_moves_def)
qed

lemma dif_loop_terminates:
  assumes "difo_text_valid 8 dp" "length (dtdo_buf dp) - pc e \<le> n"
  shows "dif_loop h dp n e \<noteq> Timeout"
  using assms(2)
proof (induction n arbitrary: e)
  case (Suc n)
  show ?case
  proof (cases "dif_step h dp e")
    case (Some e')
    show ?thesis
    proof (cases "dif_running dp e")
      case True
      then have "pc e < pc e'" "pc e < length (dtdo_buf dp)"
        using dif_step_keeps(2) [OF assms(1) _ Some] by (auto simp: dif_running_def)
      then show ?thesis using Suc Some True by simp
    qed simp
  qed simp
qed (simp add: dif_running_def)

lemma dif_loop_keeps:
  assumes "difo_text_valid 8 dp" "dif_loop h dp n e = Returned e'"
  shows "emu_keeps e e'"
  using assms(2)
proof (induction n arbitrary: e)
  case (Suc n)
  show ?case
  proof (cases "dif_running dp e")
    case True
    then obtain e1 where e1: "dif_step h dp e = Some e1" "dif_loop h dp n e1 = Returned e'"
      using Suc.prems by (auto split: option.splits)
    then show ?thesis
      using dif_step_keeps(1) [OF assms(1) _ e1(1)] Suc.IH [OF e1(2)] True
      by (auto simp: dif_running_def intro: emu_keeps_trans)
  qed (use Suc.prems in simp)
qed (simp split: if_splits)


end
