(* ===== verification/DT_Safety.thy ===== *)
theory DT_Safety
  imports DT_Frame
begin

text \<open>
  Safety of the emulator on validated text: with page faults resumed by the host, and every variable the
  text names allocated, \<open>instr_undef\<close> says exactly which instruction has undefined behaviour in which state;
  every other one executes.
\<close>

section \<open>Memory routines always return\<close>

definition mach_frame :: "mach \<Rightarrow> mach \<Rightarrow> bool" where
  "mach_frame m m' \<longleftrightarrow>
     dtms_scratch_base m' = dtms_scratch_base m \<and> dtms_scratch_ptr m' = dtms_scratch_ptr m \<and>
     dtms_scratch_size m' = dtms_scratch_size m \<and> dtms_access m' = dtms_access m \<and>
     dtms_difo m' = dtms_difo m \<and> dtvs_globals m' = dtvs_globals m \<and> dtvs_tlocals m' = dtvs_tlocals m \<and>
     dtvs_locals m' = dtvs_locals m \<and> dtvs_dynvars m' = dtvs_dynvars m"

lemma mach_frame_refl [simp]: "mach_frame m m"
  by (simp add: mach_frame_def)

lemma mach_frame_trans: "mach_frame m m' \<Longrightarrow> mach_frame m' m'' \<Longrightarrow> mach_frame m m''"
  by (simp add: mach_frame_def)

lemma mach_frame_upd [simp]:
  "mach_frame m (set_fault f a m)" "mach_frame m (DTRACE_CPUFLAG_SET f m)"
  "mach_frame m (DTRACE_CPUFLAG_CLEAR f m)" "mach_frame m (store n a v m)" "mach_frame m (m\<lparr>mem := b\<rparr>)"
  by (simp_all add: mach_frame_def set_fault_def DTRACE_CPUFLAG_SET_def DTRACE_CPUFLAG_CLEAR_def store_def)

lemma mach_frame_load:
  assumes "dtrace_load h n a m = Some (v, m')"
  shows "mach_frame m m'" "mem m' = mem m"
  using assms
  by (auto simp: dtrace_load_def Let_def mach_frame_def set_fault_def DTRACE_CPUFLAG_SET_def
      DTRACE_CPUFLAG_CLEAR_def split: if_splits)

lemma load_total: "h_nofault h \<Longrightarrow> \<exists>v m'. dtrace_load h n a m = Some (v, m')"
  by (simp add: dtrace_load_def Let_def)

lemma opt_load_total:
  assumes "h_nofault h"
  shows "\<exists>c m'. (if s = 0 then Some (0, m) else dtrace_load h (Suc 0) s m) = Some (c, m') \<and>
    mach_frame m m' \<and> mem m' = mem m"
  using load_total [OF assms, of "Suc 0" s m] mach_frame_load by (cases "s = 0") fastforce+

lemma strlen_loop_total:
  assumes "h_nofault h" "\<not> h_mapped h 0"
  shows "\<exists>v m'. strlen_loop h lim s len m = Some (v, m') \<and> mach_frame m m' \<and> mem m' = mem m"
proof (induction "unat (- s)" arbitrary: s len m rule: less_induct)
  case less
  obtain c m1 where ld: "dtrace_load h (Suc 0) s m = Some (c, m1)"
    using load_total [OF assms(1)] by blast
  note fr = mach_frame_load [OF ld]
  show ?case
  proof (cases "ucast len = lim \<or> c = 0")
    case True
    then show ?thesis using ld fr by (subst strlen_loop.simps) auto
  next
    case False
    have "s \<noteq> 0"
      using ld False assms by (auto simp: dtrace_load_def Let_def split: if_splits)
    then have "unat (- (s + 1)) < unat (- s)"
      using unat_minus_one [of "- s"] unat_gt_0 [of "- s"] by simp
    from less [OF this, of "len + 1" m1] show ?thesis
      using ld fr False by (subst strlen_loop.simps) (auto intro: mach_frame_trans)
  qed
qed

lemma dtrace_strlen_total:
  assumes "h_nofault h" "\<not> h_mapped h 0"
  obtains v m' where "dtrace_strlen h s lim m = Some (v, m')" "mach_frame m m'" "mem m' = mem m"
  using strlen_loop_total [OF assms] unfolding dtrace_strlen_def by blast

lemma strncmp_loop_total:
  assumes "h_nofault h"
  shows "\<exists>v m'. strncmp_loop h n s1 s2 m = Some (v, m') \<and> mach_frame m m' \<and> mem m' = mem m"
proof (induction n arbitrary: s1 s2 m)
  case (Suc n)
  obtain c1 m1 where 1: "(if s1 = 0 then Some (0, m) else dtrace_load h (Suc 0) s1 m) = Some (c1, m1)"
    and f1: "mach_frame m m1" "mem m1 = mem m"
    using opt_load_total [OF assms] by blast
  obtain c2 m2 where 2: "(if s2 = 0 then Some (0, m1) else dtrace_load h (Suc 0) s2 m1) = Some (c2, m2)"
    and f2: "mach_frame m1 m2" "mem m2 = mem m1"
    using opt_load_total [OF assms] by blast
  let ?s1 = "if s1 = 0 then 0 else s1 + 1" and ?s2 = "if s2 = 0 then 0 else s2 + 1"
  have step: "strncmp_loop h (Suc n) s1 s2 m =
    (if c1 \<noteq> c2 then Some (uint c1 - uint c2, m2)
     else if n \<noteq> 0 \<and> c1 \<noteq> 0 \<and> \<not> cpu_fault m2 then strncmp_loop h n ?s1 ?s2 m2 else Some (0, m2))"
    by (simp only: strncmp_loop.simps One_nat_def 1 2 Option.bind.simps case_prod_conv Let_def)
  have f: "mach_frame m m2" "mem m2 = mem m" using f1 f2 by (auto intro: mach_frame_trans)
  obtain v m' where "strncmp_loop h n ?s1 ?s2 m2 = Some (v, m')" "mach_frame m2 m'" "mem m' = mem m2"
    using Suc.IH by blast
  then show ?case
    unfolding step using f mach_frame_trans [OF f(1)]
    by (cases "c1 \<noteq> c2"; cases "n \<noteq> 0 \<and> c1 \<noteq> 0 \<and> \<not> cpu_fault m2") (simp_all only: if_True if_False, auto)
qed simp

lemma bcopy_total:
  assumes "h_nofault h"
  shows "\<exists>m'. bcopy_fwd h n s2 s1 m = Some m' \<and> mach_frame m m'"
    "\<exists>m'. bcopy_bwd h n s2 s1 m = Some m' \<and> mach_frame m m'"
    "\<exists>m'. strcpy_loop h n s2 s1 m = Some m' \<and> mach_frame m m'"
proof (induction n arbitrary: s2 s1 m)
  case (Suc n)
  {
    case 1
    obtain c m1 where ld: "dtrace_load h (Suc 0) s2 m = Some (c, m1)" using load_total [OF assms] by blast
    show ?case using Suc(1) [of "s2 + 1" "s1 + 1" "store (Suc 0) s1 c m1"] ld mach_frame_load(1) [OF ld]
      by (auto intro: mach_frame_trans [OF _ mach_frame_trans [OF mach_frame_upd(4)]])
  next
    case 2
    obtain c m1 where ld: "dtrace_load h (Suc 0) (s2 - 1) m = Some (c, m1)" using load_total [OF assms] by blast
    show ?case using Suc(2) [of "s2 - 1" "s1 - 1" "store (Suc 0) (s1 - 1) c m1"] ld mach_frame_load(1) [OF ld]
      by (auto intro: mach_frame_trans [OF _ mach_frame_trans [OF mach_frame_upd(4)]])
  next
    case 3
    obtain c m1 where ld: "dtrace_load h (Suc 0) s2 m = Some (c, m1)" using load_total [OF assms] by blast
    show ?case using Suc(3) [of "s2 + 1" "s1 + 1" "store (Suc 0) s1 c m1"] ld mach_frame_load(1) [OF ld]
      by (auto simp: Let_def intro: mach_frame_trans [OF _ mach_frame_trans [OF mach_frame_upd(4)]]
          mach_frame_trans [OF _ mach_frame_upd(4)])
  }
qed simp_all

lemma dtrace_bcopy_total:
  assumes "h_nofault h"
  obtains m' where "dtrace_bcopy h src dst len m = Some m'" "mach_frame m m'"
  using bcopy_total(1,2) [OF assms] by (cases "len = 0"; cases "dst \<le> src") (fastforce simp: dtrace_bcopy_def)+

lemma dtrace_vcopy_total:
  assumes "h_nofault h" "DIF_TF_BYREF t"
  obtains m' where "dtrace_vcopy h src dst t m = Some m'" "mach_frame m m'"
proof -
  obtain m1 where 1: "dtrace_bcopy h src dst (ucast (dtdt_size t)) m = Some m1" "mach_frame m m1"
    using dtrace_bcopy_total [OF assms(1)] .
  obtain m2 where 2: "dtrace_strcpy h src dst (ucast (dtdt_size t)) m = Some m2" "mach_frame m m2"
    using bcopy_total(3) [OF assms(1)] by (metis dtrace_strcpy_def mach_frame_refl)
  show thesis
    using assms(2) 1 2 that by (cases "unat (dtdt_kind t) = 1") (auto simp: dtrace_vcopy_def)
qed

lemma dtrace_canload_frame: "mach_frame m (snd (dtrace_canload a n m))"
  by (simp add: dtrace_canload_def)

lemma dtrace_strcanload_total:
  assumes "h_nofault h" "\<not> h_mapped h 0"
  obtains ok m' where "dtrace_strcanload h a n m = Some (ok, m')" "mach_frame m m'"
proof -
  obtain len m1 where 1: "dtrace_strlen h a n m = Some (len, m1)" "mach_frame m m1"
    using dtrace_strlen_total [OF assms] .
  have "mach_frame m (snd (dtrace_canload a (1 + len) m1))"
    using 1(2) dtrace_canload_frame mach_frame_trans by blast
  then show thesis
    using that 1(1)
    by (cases "dtms_access m AND 1 \<noteq> 0"; cases "dtrace_canload a (1 + len) m1") (auto simp: dtrace_strcanload_def)
qed

lemma dtrace_vcanload_total:
  assumes "h_nofault h" "\<not> h_mapped h 0" "DIF_TF_BYREF t"
  obtains ok m' where "dtrace_vcanload h a t m = Some (ok, m')" "mach_frame m m'"
proof -
  obtain len m1 where 1: "dtrace_strlen h a (h_strsize h) m = Some (len, m1)" "mach_frame m m1"
    using dtrace_strlen_total [OF assms(1,2)] .
  have 2: "mach_frame m (snd (dtrace_canload a (len + 1) m1))"
    using 1(2) dtrace_canload_frame mach_frame_trans by blast
  have 3: "mach_frame m (snd (dtrace_canload a (ucast (dtdt_size t)) m))" by (rule dtrace_canload_frame)
  obtain ok2 m2 where d2: "dtrace_canload a (len + 1) m1 = (ok2, m2)" by (cases "dtrace_canload a (len + 1) m1")
  obtain ok3 m3 where d3: "dtrace_canload a (ucast (dtdt_size t)) m = (ok3, m3)"
    by (cases "dtrace_canload a (ucast (dtdt_size t)) m")
  show thesis
  proof (cases "dtms_access m AND 1 = 0")
    case True
    then show thesis
      using assms(3) that 1 2 3 d2 d3 by (cases "unat (dtdt_kind t) = 1") (auto simp: dtrace_vcanload_def)
  next
    case False
    then show thesis using assms(3) that by (simp add: dtrace_vcanload_def)
  qed
qed

lemma dtrace_strncmp_total:
  assumes "h_nofault h"
  obtains r m' where "dtrace_strncmp h s1 s2 n m = Some (r, m')" "mach_frame m m'"
proof (cases "s1 = s2 \<or> n = 0")
  case True
  then show thesis using that [of 0 m] by (auto simp: dtrace_strncmp_def)
next
  case False
  then show thesis
    using that strncmp_loop_total [OF assms, of "unat n" s1 s2 m] by (auto simp: dtrace_strncmp_def)
qed

lemma byref_store_total:
  assumes "h_nofault h" "\<not> h_mapped h 0" "DIF_TF_BYREF t"
  obtains m' where "byref_store h x a t m = Some m'" "mach_frame m m'"
proof -
  obtain ok m1 where 1: "dtrace_vcanload h x t (store (Suc 0) a 0 m) = Some (ok, m1)" "mach_frame (store (Suc 0) a 0 m) m1"
    using dtrace_vcanload_total [OF assms] .
  obtain m2 where 2: "dtrace_vcopy h x (a + 8) t m1 = Some m2" "mach_frame m1 m2"
    using dtrace_vcopy_total [OF assms(1,3)] .
  have f1: "mach_frame m m1" using 1(2) mach_frame_upd(4) mach_frame_trans by blast
  then have f2: "mach_frame m m2" using 2(2) mach_frame_trans by blast
  show thesis
    using that 1(1) 2(1) f1 f2 by (cases "x = 0"; cases ok) (auto simp: byref_store_def Let_def)
qed

section \<open>Variables\<close>

definition svar_keep :: "dtrace_statvar \<Rightarrow> dtrace_statvar \<Rightarrow> bool" where
  "svar_keep s s' \<longleftrightarrow> dtsv_var s' = dtsv_var s \<and> dtsv_size s' = dtsv_size s \<and>
     (DIF_TF_BYREF (dtdv_type (dtsv_var s)) \<longrightarrow> dtsv_data s' = dtsv_data s)"

definition vars_keep :: "mach \<Rightarrow> mach \<Rightarrow> bool" where
  "vars_keep m m' \<longleftrightarrow> dtvs_tlocals m' = dtvs_tlocals m \<and> dtvs_locals m' = dtvs_locals m \<and>
     list_all2 (rel_option svar_keep) (dtvs_globals m) (dtvs_globals m')"

lemma svar_keep_refl [simp]: "svar_keep s s"
  by (simp add: svar_keep_def)

lemma svar_keep_trans: "svar_keep s s' \<Longrightarrow> svar_keep s' s'' \<Longrightarrow> svar_keep s s''"
  by (simp add: svar_keep_def)

lemma globals_keep_refl [simp]: "list_all2 (rel_option svar_keep) g g"
  by (simp add: list.rel_refl option.rel_refl)

lemma globals_keep_trans:
  "list_all2 (rel_option svar_keep) a b \<Longrightarrow> list_all2 (rel_option svar_keep) b c \<Longrightarrow>
   list_all2 (rel_option svar_keep) a c"
  by (rule list_all2_trans [where ?P1.0 = "rel_option svar_keep" and ?P2.0 = "rel_option svar_keep"])
    (auto simp: option_rel_Some1 option_rel_Some2 rel_option_iff svar_keep_def split: option.splits)

lemma vars_keep_refl [simp]: "vars_keep m m"
  by (simp add: vars_keep_def)

lemma vars_keep_trans: "vars_keep m m' \<Longrightarrow> vars_keep m' m'' \<Longrightarrow> vars_keep m m''"
  by (auto simp: vars_keep_def intro: globals_keep_trans)

lemma mach_frame_vars: "mach_frame m m' \<Longrightarrow> vars_keep m m'"
  by (simp add: mach_frame_def vars_keep_def)

lemma svar_get_keep:
  assumes "vars_keep m m'" "svar_get (dtvs_globals m) i = Some s"
  obtains s' where "svar_get (dtvs_globals m') i = Some s'" "svar_keep s s'"
proof -
  have "rel_option svar_keep (dtvs_globals m ! i) (dtvs_globals m' ! i)" "i < length (dtvs_globals m')"
    using assms by (auto simp: vars_keep_def svar_get_def list_all2_conv_all_nth split: if_splits)
  then show thesis
    using assms(2) that by (auto simp: svar_get_def option_rel_Some1 split: if_splits)
qed

text \<open>
  The variable an instruction refers to exists, and a by-reference or clause-local one has the storage
  \<^verbatim>\<open>dtrace_difo_init\<close> allocates for it.
\<close>

definition global_ok :: "mach \<Rightarrow> nat \<Rightarrow> bool" where
  "global_ok m i \<longleftrightarrow> (\<exists>s. svar_get (dtvs_globals m) i = Some s \<and>
     (DIF_TF_BYREF (dtdv_type (dtsv_var s)) \<longrightarrow> dtsv_data s \<noteq> 0 \<and> dtsv_size s \<noteq> 0))"

definition local_ok :: "host \<Rightarrow> mach \<Rightarrow> nat \<Rightarrow> bool" where
  "local_ok h m i \<longleftrightarrow> (\<exists>s. svar_get (dtvs_locals m) i = Some s \<and>
     dtsv_size s = h_ncpu h * (if DIF_TF_BYREF (dtdv_type (dtsv_var s))
                               then ucast (dtdt_size (dtdv_type (dtsv_var s))) + 8 else 8))"

definition instr_vars_ok :: "host \<Rightarrow> mach \<Rightarrow> dif_instr \<Rightarrow> bool" where
  "instr_vars_ok h m i =
     (let v = DIF_INSTR_VAR i; n = v - DIF_VAR_OTHER_UBASE; user = v \<ge> DIF_VAR_OTHER_UBASE in
      case DIF_INSTR_OP i of
        None \<Rightarrow> True
      | Some op \<Rightarrow>
          (case op of
             DIF_OP_LDGS \<Rightarrow> user \<longrightarrow> global_ok m n
           | DIF_OP_STGS \<Rightarrow> global_ok m n
           | DIF_OP_LDLS \<Rightarrow> user \<longrightarrow> local_ok h m n
           | DIF_OP_STLS \<Rightarrow> local_ok h m n
           | DIF_OP_LDTS \<Rightarrow> user \<and> n < length (dtvs_tlocals m)
           | DIF_OP_STTS \<Rightarrow> n < length (dtvs_tlocals m)
           | DIF_OP_LDTAA \<Rightarrow> user \<and> n < length (dtvs_tlocals m)
           | DIF_OP_STTAA \<Rightarrow> n < length (dtvs_tlocals m)
           | DIF_OP_LDGAA \<Rightarrow> user \<and> global_ok m n
           | DIF_OP_STGAA \<Rightarrow> global_ok m n
           | _ \<Rightarrow> True))"

lemma vars_ok_keep:
  assumes "vars_keep m m'"
  shows "global_ok m i \<Longrightarrow> global_ok m' i" "local_ok h m i \<Longrightarrow> local_ok h m' i"
    "length (dtvs_tlocals m') = length (dtvs_tlocals m)"
  using assms
  by (auto simp: global_ok_def svar_keep_def elim!: svar_get_keep [OF assms])
    (auto simp: local_ok_def vars_keep_def)

lemma instr_vars_ok_keep:
  assumes "vars_keep m m'" "instr_vars_ok h m i"
  shows "instr_vars_ok h m' i"
  using assms(2) vars_ok_keep [OF assms(1)]
  by (cases "DIF_INSTR_OP i") (auto simp: instr_vars_ok_def Let_def split: dif_op.splits)


section \<open>Every instruction executes\<close>

definition host_ok :: "host \<Rightarrow> bool" where
  "host_ok h \<longleftrightarrow> h_nofault h \<and> \<not> h_mapped h 0 \<and>
     (\<forall>n a m. vars_keep m (snd (h_fuword_nocheck h n a m))) \<and>
     (\<forall>v x m r m'. dtrace_dif_variable h v x m = Some (r, m') \<longrightarrow> vars_keep m m') \<and>
     (\<forall>s r t n m x m'. dtrace_dif_subr h s r t n m = Some (x, m') \<longrightarrow> vars_keep m m') \<and>
     (\<forall>k n oper m x m'. dtrace_dynvar h k n oper m = Some (x, m') \<longrightarrow> vars_keep m m')"

definition exec_ok :: "emu \<Rightarrow> emu option \<Rightarrow> bool" where
  "exec_ok e x \<longleftrightarrow> (\<exists>e'. x = Some e' \<and> vars_keep (mach e) (mach e'))"

lemma exec_ok_Some: "exec_ok e (Some e') \<longleftrightarrow> vars_keep (mach e) (mach e')"
  by (simp add: exec_ok_def)

lemma host_okD:
  assumes "host_ok h"
  shows "h_nofault h" "\<not> h_mapped h 0"
    "h_fuword_nocheck h n a m = (x, m') \<Longrightarrow> vars_keep m m'"
    "dtrace_dif_variable h v y m = Some (x, m') \<Longrightarrow> vars_keep m m'"
    "dtrace_dif_subr h s r t k m = Some (z, m') \<Longrightarrow> vars_keep m m'"
    "dtrace_dynvar h key sz oper m = Some (z, m') \<Longrightarrow> vars_keep m m'"
  using assms unfolding host_ok_def by (metis snd_conv)+

text \<open>An instruction whose behaviour is undefined exactly when \<open>u\<close> holds, and that executes otherwise.\<close>

definition exec_st :: "emu \<Rightarrow> bool \<Rightarrow> emu option \<Rightarrow> bool" where
  "exec_st e u x \<longleftrightarrow> (if u then x = None else exec_ok e x)"

lemma exec_st_simps: "exec_st e False x = exec_ok e x" "exec_st e True x = (x = None)"
  by (simp_all add: exec_st_def)

lemma emu_wf_simps [simp]:
  "emu_wf (e\<lparr>mach := m\<rparr>) = emu_wf e" "emu_wf (emu_flag f e) = emu_wf e" "emu_wf (emu_fault f a e) = emu_wf e"
  "emu_wf (e\<lparr>opc := p, pc := q\<rparr>) = emu_wf e"
  by (simp_all add: emu_wf_def emu_flag_def emu_fault_def)

lemma rget_wf: "emu_wf e \<Longrightarrow> r < 8 \<Longrightarrow> rget e r = Some (regs e ! r)"
  by (simp add: rget_def emu_wf_def)

lemma rset_wf: "emu_wf e \<Longrightarrow> r < 8 \<Longrightarrow> rset e r v = Some (e\<lparr>regs := (regs e)[r := v]\<rparr>)"
  by (simp add: rset_def emu_wf_def)

lemma tset_wf: "emu_wf e \<Longrightarrow> i < 10 \<Longrightarrow> tset e i k = Some (e\<lparr>tupregs := (tupregs e)[i := k]\<rparr>)"
  by (simp add: tset_def emu_wf_def)

lemma emu_wf_tup: "emu_wf e \<Longrightarrow> emu_wf (e\<lparr>tupregs := (tupregs e)[i := k]\<rparr>)"
  by (simp add: emu_wf_def)

lemma flag_vars [simp]:
  "vars_keep (mach e) (mach (emu_flag f e))" "vars_keep (mach e) (mach (emu_fault f a e))"
  by (simp_all add: emu_flag_def emu_fault_def mach_frame_vars)

lemmas wf_simps = rget_wf rset_wf exec_ok_Some

lemma exec_alu_ok:
  "emu_wf e \<Longrightarrow> r1 < 8 \<Longrightarrow> r2 < 8 \<Longrightarrow> rd < 8 \<Longrightarrow> dif_alu op (regs e ! r1) (regs e ! r2) \<noteq> None \<Longrightarrow>
   exec_ok e (exec_alu op r1 r2 rd e)"
  by (auto simp: exec_alu_def wf_simps split_beta)

lemma exec_basic_ok:
  assumes "emu_wf e"
  shows "r1 < 8 \<Longrightarrow> rd < 8 \<Longrightarrow> exec_ok e (exec_not r1 rd e)" "r1 < 8 \<Longrightarrow> rd < 8 \<Longrightarrow> exec_ok e (exec_mov r1 rd e)"
    "r1 < 8 \<Longrightarrow> r2 < 8 \<Longrightarrow> exec_ok e (exec_cmp r1 r2 e)" "r1 < 8 \<Longrightarrow> exec_ok e (exec_tst r1 e)"
    "exec_ok e (Some (exec_branch op i e))" "rd < 8 \<Longrightarrow> exec_ok e (exec_ret dp rd e)"
    "j < length (dtdo_inttab dp) \<Longrightarrow> rd < 8 \<Longrightarrow> exec_ok e (exec_setx dp j rd e)"
    "rd < 8 \<Longrightarrow> exec_ok e (exec_sets dp j rd e)" "exec_ok e (Some (exec_popts e))"
    "r1 < 8 \<Longrightarrow> rd < 8 \<Longrightarrow> exec_ok e (exec_store n r1 rd e)"
  using assms
  by (simp_all add: exec_not_def exec_mov_def exec_cmp_def exec_tst_def exec_branch_def exec_ret_def
      exec_setx_def exec_sets_def exec_popts_def exec_store_def Let_def wf_simps mach_frame_vars)

lemma bzero_frame: "mach_frame m (bzero_loop n d m)"
  by (induction n arbitrary: d m) (auto intro: mach_frame_trans [OF mach_frame_upd(4)])

lemma exec_allocs_ok: "emu_wf e \<Longrightarrow> r1 < 8 \<Longrightarrow> rd < 8 \<Longrightarrow> exec_ok e (exec_allocs r1 rd e)"
  using bzero_frame
  by (simp add: exec_allocs_def Let_def wf_simps dtrace_bzero_def)
    (simp add: vars_keep_def mach_frame_def)

lemma exec_load_ok:
  assumes "host_ok h" "emu_wf e" "r1 < 8" "rd < 8"
  shows "exec_ok e (exec_load h op r1 rd e)"
proof -
  obtain restricted signed n where op: "dif_load_op op = (restricted, signed, n)"
    by (metis prod_cases3)
  obtain v m where ld: "dtrace_load h n (regs e ! r1) (mach e) = Some (v, m)"
    using load_total [OF host_okD(1) [OF assms(1)]] by blast
  then show ?thesis
    using assms mach_frame_load(1) [OF ld] by (simp add: exec_load_def op wf_simps mach_frame_vars)
qed

lemma exec_uload_ok:
  assumes "host_ok h" "emu_wf e" "r1 < 8" "rd < 8"
  shows "exec_ok e (exec_uload h op r1 rd e)"
proof -
  obtain v m where ld: "dtrace_fuword h (snd (dif_uload_op op)) (regs e ! r1) (mach e) = (v, m)"
    by (metis prod.exhaust)
  then have "vars_keep (mach e) m"
    using host_okD(3) [OF assms(1)] by (auto simp: dtrace_fuword_def mach_frame_vars split: if_splits)
  then show ?thesis
    using assms ld by (simp add: exec_uload_def wf_simps split_beta)
qed

lemma exec_copys_ok:
  assumes "host_ok h" "emu_wf e" "r1 < 8" "r2 < 8" "rd < 8"
  shows "exec_ok e (exec_copys h r1 r2 rd e)"
proof -
  let ?src = "regs e ! r1" and ?len = "regs e ! r2" and ?dst = "regs e ! rd"
  obtain ok m1 where 1: "dtrace_canload ?src ?len (mach e) = (ok, m1)" by (metis prod.exhaust)
  obtain m2 where 2: "dtrace_bcopy h ?src ?dst ?len m1 = Some m2" "mach_frame m1 m2"
    using dtrace_bcopy_total [OF host_okD(1) [OF assms(1)]] .
  have "mach_frame (mach e) m1" using dtrace_canload_frame [of "mach e" ?src ?len] 1 by simp
  then have "vars_keep (mach e) m1" "vars_keep (mach e) m2"
    using 2(2) mach_frame_trans mach_frame_vars by blast+
  then show ?thesis
    using assms 1 2(1) by (simp add: exec_copys_def wf_simps)
qed

lemma exec_scmp_ok:
  assumes "host_ok h" "emu_wf e" "r1 < 8" "r2 < 8"
  shows "exec_ok e (exec_scmp h r1 r2 e)"
proof -
  let ?s1 = "regs e ! r1" and ?s2 = "regs e ! r2"
  note H = host_okD(1,2) [OF assms(1)]
  obtain ok1 m1 where 1: "(if ?s1 \<noteq> 0 then dtrace_strcanload h ?s1 (h_strsize h) (mach e) else Some (True, mach e)) = Some (ok1, m1)"
    and f1: "mach_frame (mach e) m1"
    by (cases "?s1 = 0") (auto intro: dtrace_strcanload_total [OF H])
  obtain ok2 m2 where 2: "(if ?s2 \<noteq> 0 then dtrace_strcanload h ?s2 (h_strsize h) m1 else Some (True, m1)) = Some (ok2, m2)"
    and f2: "mach_frame m1 m2"
    by (cases "?s2 = 0") (auto intro: dtrace_strcanload_total [OF H])
  obtain r m3 where 3: "dtrace_strncmp h ?s1 ?s2 (h_strsize h) m2 = Some (r, m3)" and f3: "mach_frame m2 m3"
    using dtrace_strncmp_total [OF H(1)] .
  have "vars_keep (mach e) m1" "vars_keep (mach e) m2" "vars_keep (mach e) m3"
    using f1 f2 f3 mach_frame_trans mach_frame_vars by blast+
  moreover have "exec_scmp h r1 r2 e =
    (if \<not> ok1 then Some (e\<lparr>mach := m1\<rparr>) else if \<not> ok2 then Some (e\<lparr>mach := m2\<rparr>)
     else Some (e\<lparr>mach := m3, cc_n := r < 0, cc_z := r = 0, cc_v := False, cc_c := False\<rparr>))"
    using assms(2,3,4)
    by (simp only: exec_scmp_def rget_wf Let_def 1 2 3 Option.bind.simps case_prod_conv)
  ultimately show ?thesis by (simp add: exec_ok_Some)
qed

lemma exec_variable_st:
  assumes "host_ok h" "emu_wf e" "rd < 8"
  shows "exec_st e (dtrace_dif_variable h v x (mach e) = None) (exec_variable h v x rd e)"
  using assms host_okD(4) [OF assms(1), of v x "mach e"]
  by (cases "dtrace_dif_variable h v x (mach e)") (auto simp: exec_variable_def exec_st_def wf_simps)

lemma exec_ldgs_st:
  assumes "host_ok h" "emu_wf e" "rd < 8" "DIF_INSTR_VAR i \<ge> 1280 \<longrightarrow> global_ok (mach e) (DIF_INSTR_VAR i - 1280)"
  shows "exec_st e (DIF_INSTR_VAR i < 1280 \<and> dtrace_dif_variable h (DIF_INSTR_VAR i) 0 (mach e) = None) (exec_ldgs h i rd e)"
proof (cases "DIF_INSTR_VAR i < 1280")
  case True
  then show ?thesis using exec_variable_st [OF assms(1-3)] by (simp add: exec_ldgs_def Let_def)
next
  case False
  then show ?thesis using assms by (auto simp: exec_ldgs_def exec_st_def Let_def global_ok_def wf_simps)
qed

lemma globals_update_keep:
  assumes "svar_get (dtvs_globals m) i = Some s" "\<not> DIF_TF_BYREF (dtdv_type (dtsv_var s))"
  shows "vars_keep m (m\<lparr>dtvs_globals := (dtvs_globals m)[i := Some (s\<lparr>dtsv_data := x\<rparr>)]\<rparr>)"
proof -
  have "rel_option svar_keep (dtvs_globals m ! i) (Some (s\<lparr>dtsv_data := x\<rparr>))" "i < length (dtvs_globals m)"
    using assms by (auto simp: svar_get_def svar_keep_def split: if_splits)
  then have "list_all2 (rel_option svar_keep) ((dtvs_globals m)[i := dtvs_globals m ! i])
      ((dtvs_globals m)[i := Some (s\<lparr>dtsv_data := x\<rparr>)])"
    by (intro list_all2_update_cong) auto
  then show ?thesis by (simp add: vars_keep_def)
qed

lemma exec_stgs_ok:
  assumes "host_ok h" "emu_wf e" "rd < 8" "DIF_INSTR_VAR i \<ge> 1280" "global_ok (mach e) (DIF_INSTR_VAR i - 1280)"
  shows "exec_ok e (exec_stgs h i rd e)"
proof -
  let ?n = "DIF_INSTR_VAR i - 1280"
  obtain s where s: "svar_get (dtvs_globals (mach e)) ?n = Some s"
      "DIF_TF_BYREF (dtdv_type (dtsv_var s)) \<Longrightarrow> dtsv_data s \<noteq> 0 \<and> dtsv_size s \<noteq> 0"
    using assms(5) by (auto simp: global_ok_def)
  show ?thesis
  proof (cases "DIF_TF_BYREF (dtdv_type (dtsv_var s))")
    case True
    obtain m where "byref_store h (regs e ! rd) (dtsv_data s) (dtdv_type (dtsv_var s)) (mach e) = Some m"
        "mach_frame (mach e) m"
      using byref_store_total [OF host_okD(1,2) [OF assms(1)] True] .
    then show ?thesis using assms s True by (simp add: exec_stgs_def var_id_def Let_def wf_simps mach_frame_vars)
  next
    case False
    then show ?thesis
      using assms s globals_update_keep [OF s(1)] by (simp add: exec_stgs_def var_id_def Let_def wf_simps)
  qed
qed

lemma exec_ldls_ok:
  assumes "emu_wf e" "rd < 8" "DIF_INSTR_VAR i \<ge> 1280 \<longrightarrow> local_ok h (mach e) (DIF_INSTR_VAR i - 1280)"
  shows "exec_ok e (exec_ldls h i rd e)"
  using assms by (auto simp: exec_ldls_def Let_def local_ok_def wf_simps)

lemma exec_stls_ok:
  assumes "host_ok h" "emu_wf e" "rd < 8" "DIF_INSTR_VAR i \<ge> 1280" "local_ok h (mach e) (DIF_INSTR_VAR i - 1280)"
  shows "exec_ok e (exec_stls h i rd e)"
proof -
  let ?n = "DIF_INSTR_VAR i - 1280"
  obtain s where s: "svar_get (dtvs_locals (mach e)) ?n = Some s"
      "dtsv_size s = h_ncpu h * (if DIF_TF_BYREF (dtdv_type (dtsv_var s))
         then ucast (dtdt_size (dtdv_type (dtsv_var s))) + 8 else 8)"
    using assms(5) by (auto simp: local_ok_def)
  let ?a = "dtsv_data s + h_cpu h * (ucast (dtdt_size (dtdv_type (dtsv_var s))) + 8)"
  show ?thesis
  proof (cases "DIF_TF_BYREF (dtdv_type (dtsv_var s))")
    case True
    obtain m where "byref_store h (regs e ! rd) ?a (dtdv_type (dtsv_var s)) (mach e) = Some m"
        "mach_frame (mach e) m"
      using byref_store_total [OF host_okD(1,2) [OF assms(1)] True] .
    then show ?thesis using assms s True by (simp add: exec_stls_def var_id_def Let_def wf_simps mach_frame_vars)
  next
    case False
    then show ?thesis using assms s by (simp add: exec_stls_def var_id_def Let_def wf_simps mach_frame_vars)
  qed
qed

lemma dynvar_load_ok: "emu_wf e \<Longrightarrow> rd < 8 \<Longrightarrow> exec_ok e (dynvar_load rd v dvar e)"
  by (simp add: dynvar_load_def wf_simps split: option.split)

lemma dynvar_store_ok:
  assumes "host_ok h" "emu_wf e"
  shows "exec_ok e (dynvar_store h x v dvar e)"
proof (cases "dvar = None \<or> \<not> DIF_TF_BYREF (dtdv_type v)")
  case True
  then show ?thesis by (cases dvar) (auto simp: dynvar_store_def exec_ok_Some mach_frame_vars)
next
  case False
  then obtain a where a: "dvar = Some a" and byref: "DIF_TF_BYREF (dtdv_type v)" by auto
  obtain ok m1 where 1: "dtrace_vcanload h x (dtdv_type v) (mach e) = Some (ok, m1)" "mach_frame (mach e) m1"
    using dtrace_vcanload_total [OF host_okD(1,2) [OF assms(1)] byref] .
  obtain m2 where 2: "dtrace_vcopy h x a (dtdv_type v) m1 = Some m2" "mach_frame m1 m2"
    using dtrace_vcopy_total [OF host_okD(1) [OF assms(1)] byref] .
  have "vars_keep (mach e) m1" "vars_keep (mach e) m2"
    using 1(2) 2(2) mach_frame_trans mach_frame_vars by blast+
  then show ?thesis using a byref 1(1) 2(1) by (simp add: dynvar_store_def exec_ok_Some)
qed

lemma exec_ok_mono: "exec_ok e x \<Longrightarrow> vars_keep (mach e0) (mach e) \<Longrightarrow> exec_ok e0 x"
  by (auto simp: exec_ok_def intro: vars_keep_trans)

lemma tlocal_get_wf: "i < length (dtvs_tlocals m) \<Longrightarrow> tlocal_get m i = Some (dtvs_tlocals m ! i)"
  by (simp add: tlocal_get_def)

text \<open>A dynamic variable instruction is undefined when the thread key or the routine for its key is.\<close>

definition dynvar_undef :: "host \<Rightarrow> dtrace_key list \<Rightarrow> bool \<Rightarrow> u64 \<Rightarrow> dtrace_dynvar_op \<Rightarrow> mach \<Rightarrow> bool" where
  "dynvar_undef h keys tls n oper m \<longleftrightarrow>
     (case (if tls then map_option (\<lambda>k. keys @ [(k, 0)]) (DTRACE_TLS_THRKEY h) else Some keys) of
        None \<Rightarrow> True
      | Some key \<Rightarrow> dtrace_dynvar h key n oper m = None)"

lemma tup_take:
  "n < length t \<Longrightarrow> take (n + 1) (t[n := a]) = take n t @ [a]"
  "n + 1 < length t \<Longrightarrow> take (n + 2) (t[n := a, n + 1 := b]) = take n t @ [a, b]"
  by (simp_all add: take_Suc_conv_app_nth)

lemma tup_drop: "length t = 10 \<Longrightarrow> take 2 (drop 8 (t[8 := a, 9 := b])) = [a, b]"
  using tup_take(2) [of 8 t a b] by (simp add: take_drop)

text \<open>After the routine has returned, the rest of the instruction executes.\<close>

lemma dynvar_st:
  assumes "host_ok h" "mach e1 = mach e" "\<And>dvar m. exec_ok (e1\<lparr>mach := m\<rparr>) (f dvar m)"
  shows "exec_st e (dtrace_dynvar h key n oper (mach e) = None)
    (Option.bind (dtrace_dynvar h key n oper (mach e1)) (\<lambda>(dvar, m). f dvar m))"
proof (cases "dtrace_dynvar h key n oper (mach e)")
  case (Some r)
  obtain dvar m where r: "r = (dvar, m)" by (cases r)
  have "vars_keep (mach e) m" using host_okD(6) [OF assms(1)] Some r by blast
  then have "exec_ok e (f dvar m)" using assms(3) [of m dvar] by (auto intro: exec_ok_mono)
  then show ?thesis using Some r assms(2) by (simp add: exec_st_def)
qed (simp add: exec_st_def assms(2))

definition var_tuple :: "nat \<Rightarrow> dtrace_key list" where
  "var_tuple j = [(of_nat j, 0)]"

lemma exec_ldts_st:
  assumes "host_ok h" "emu_wf e" "rd < 8" "var_id i = Some j" "j < length (dtvs_tlocals (mach e))"
  shows "exec_st e (dynvar_undef h (var_tuple j) True 8 DTRACE_DYNVAR_NOALLOC (mach e)) (exec_ldts h i rd e)"
proof (cases "DTRACE_TLS_THRKEY h")
  case None
  then show ?thesis
    using assms(2,4,5) by (simp add: exec_st_def dynvar_undef_def exec_ldts_def tlocal_get_wf tset_wf)
next
  case (Some k)
  define e2 where "e2 = e\<lparr>tupregs := (tupregs e)[8 := (of_nat j, 0), 9 := (k, 0)]\<rparr>"
  have wf: "emu_wf e2" "mach e2 = mach e" using assms(2) by (simp_all add: e2_def emu_wf_def)
  have key: "take 2 (drop 8 ((tupregs e)[8 := (of_nat j, 0), 9 := (k, 0)])) = [(of_nat j, 0), (k, 0)]"
    using assms(2) by (intro tup_drop) (simp add: emu_wf_def)
  have "exec_ldts h i rd e = Option.bind (dtrace_dynvar h [(of_nat j, 0), (k, 0)] 8 DTRACE_DYNVAR_NOALLOC (mach e2))
      (\<lambda>(dvar, m). dynvar_load rd (dtvs_tlocals (mach e) ! j) dvar (e2\<lparr>mach := m\<rparr>))"
    using assms(2,4,5) Some key wf(2) emu_wf_tup [OF assms(2), of 8]
    by (simp add: exec_ldts_def tlocal_get_wf tset_wf e2_def [symmetric])
  moreover have "exec_ok (e2\<lparr>mach := m\<rparr>) (dynvar_load rd (dtvs_tlocals (mach e) ! j) dvar (e2\<lparr>mach := m\<rparr>))" for dvar m
    using wf(1) assms(3) by (intro dynvar_load_ok) simp_all
  ultimately show ?thesis
    using dynvar_st [OF assms(1) wf(2)] Some by (simp add: dynvar_undef_def var_tuple_def)
qed

definition store_oper :: "u64 \<Rightarrow> dtrace_dynvar_op" where
  "store_oper x = (if x \<noteq> 0 then DTRACE_DYNVAR_ALLOC else DTRACE_DYNVAR_DEALLOC)"

lemma exec_stts_st:
  assumes "host_ok h" "emu_wf e" "rd < 8" "var_id i = Some j" "j < length (dtvs_tlocals (mach e))"
  shows "exec_st e (dynvar_undef h (var_tuple j) True (dynvar_size (dtvs_tlocals (mach e) ! j))
    (store_oper (regs e ! rd)) (mach e)) (exec_stts h i rd e)"
proof (cases "DTRACE_TLS_THRKEY h")
  case None
  then show ?thesis
    using assms(2-4) by (simp add: exec_st_def dynvar_undef_def exec_stts_def rget_wf tset_wf)
next
  case (Some k)
  define e2 where "e2 = e\<lparr>tupregs := (tupregs e)[8 := (of_nat j, 0), 9 := (k, 0)]\<rparr>"
  define v where "v = dtvs_tlocals (mach e) ! j"
  have wf: "emu_wf e2" "mach e2 = mach e" using assms(2) by (simp_all add: e2_def emu_wf_def)
  have key: "take 2 (drop 8 ((tupregs e)[8 := (of_nat j, 0), 9 := (k, 0)])) = [(of_nat j, 0), (k, 0)]"
    using assms(2) by (intro tup_drop) (simp add: emu_wf_def)
  have "exec_stts h i rd e = Option.bind (dtrace_dynvar h [(of_nat j, 0), (k, 0)] (dynvar_size v) (store_oper (regs e ! rd)) (mach e2))
      (\<lambda>(dvar, m). dynvar_store h (regs e ! rd) v dvar (e2\<lparr>mach := m\<lparr>t_predcache := 0\<rparr>\<rparr>))"
    using assms(2-5) Some key wf(2) emu_wf_tup [OF assms(2), of 8]
    by (simp add: exec_stts_def rget_wf tlocal_get_wf tset_wf e2_def [symmetric] v_def [symmetric] store_oper_def [symmetric])
  moreover have "exec_ok (e2\<lparr>mach := m\<rparr>) (dynvar_store h (regs e ! rd) v dvar (e2\<lparr>mach := m\<lparr>t_predcache := 0\<rparr>\<rparr>))" for dvar m
    using wf(1) assms(1) by (intro exec_ok_mono [OF dynvar_store_ok]) (simp_all add: vars_keep_def)
  ultimately show ?thesis
    using dynvar_st [OF assms(1) wf(2)] Some by (simp add: dynvar_undef_def var_tuple_def v_def)
qed

text \<open>The variable of an associative array instruction, and its key without the thread.\<close>

definition assoc_var :: "bool \<Rightarrow> nat \<Rightarrow> mach \<Rightarrow> dtrace_difv" where
  "assoc_var tls j m = (if tls then dtvs_tlocals m ! j else dtsv_var (the (dtvs_globals m ! j)))"

definition assoc_tuple :: "nat \<Rightarrow> emu \<Rightarrow> dtrace_key list" where
  "assoc_tuple j e = take (ttop e) (tupregs e) @ [(of_nat j, 0)]"

lemma assoc_key_cases:
  assumes "emu_wf e" "if tls then j < length (dtvs_tlocals (mach e)) else global_ok (mach e) j"
  obtains "tls" "DTRACE_TLS_THRKEY h = None" "assoc_key h tls j e = None"
  | key e' where "(if tls then map_option (\<lambda>k. assoc_tuple j e @ [(k, 0)]) (DTRACE_TLS_THRKEY h) else Some (assoc_tuple j e)) = Some key"
    "assoc_key h tls j e = Some (assoc_var tls j (mach e), key, e')" "emu_wf e'" "mach e' = mach e" "regs e' = regs e"
proof (cases tls)
  case True
  have t: "ttop e + 1 < length (tupregs e)" "ttop e < length (tupregs e)" using assms(1) by (auto simp: emu_wf_def)
  show thesis
  proof (cases "DTRACE_TLS_THRKEY h")
    case None
    then show thesis using that(1) True t by (simp add: assoc_key_def tset_def Let_def)
  next
    case (Some k)
    let ?e = "e\<lparr>tupregs := (tupregs e)[ttop e := (of_nat j, 0), ttop e + 1 := (k, 0)]\<rparr>"
    have "assoc_key h tls j e = Some (assoc_var tls j (mach e), assoc_tuple j e @ [(k, 0)], ?e)"
      using True Some t assms(2) tup_take(2) [OF t(1)]
      by (simp add: assoc_key_def tset_def Let_def tlocal_get_wf assoc_var_def assoc_tuple_def)
    then show thesis using that(2) [of _ ?e] True Some assms(1) by (simp add: emu_wf_def)
  qed
next
  case False
  have t: "ttop e < length (tupregs e)" using assms(1) by (auto simp: emu_wf_def)
  let ?e = "e\<lparr>tupregs := (tupregs e)[ttop e := (of_nat j, 0)]\<rparr>"
  obtain s where "svar_get (dtvs_globals (mach e)) j = Some s" "dtvs_globals (mach e) ! j = Some s"
    using assms(2) False by (auto simp: global_ok_def svar_get_def split: if_splits)
  then have "assoc_key h tls j e = Some (assoc_var tls j (mach e), assoc_tuple j e, ?e)"
    using False t tup_take(1) [OF t] by (simp add: assoc_key_def tset_def Let_def assoc_var_def assoc_tuple_def)
  then show thesis using that(2) [of _ ?e] False assms(1) by (simp add: emu_wf_def)
qed

lemma exec_ldaa_st:
  assumes "host_ok h" "emu_wf e" "rd < 8" "var_id i = Some j"
    "if tls then j < length (dtvs_tlocals (mach e)) else global_ok (mach e) j"
  shows "exec_st e (dynvar_undef h (assoc_tuple j e) tls (dynvar_size (assoc_var tls j (mach e))) DTRACE_DYNVAR_NOALLOC (mach e))
    (exec_ldaa h tls i rd e)"
proof (rule assoc_key_cases [OF assms(2,5), of h])
  assume "tls" "DTRACE_TLS_THRKEY h = None" "assoc_key h tls j e = None"
  then show ?thesis using assms(4) by (simp add: exec_st_def dynvar_undef_def exec_ldaa_def)
next
  fix key e1
  let ?v = "assoc_var tls j (mach e)"
  assume key: "(if tls then map_option (\<lambda>k. assoc_tuple j e @ [(k, 0)]) (DTRACE_TLS_THRKEY h) else Some (assoc_tuple j e)) = Some key"
    and a: "assoc_key h tls j e = Some (?v, key, e1)" "emu_wf e1" "mach e1 = mach e" "regs e1 = regs e"
  have "exec_ok (e1\<lparr>mach := m\<rparr>) (dynvar_load rd ?v dvar (e1\<lparr>mach := m\<rparr>))" for dvar m
    using a(2) assms(3) by (intro dynvar_load_ok) simp_all
  from dynvar_st [where f = "\<lambda>dvar m. dynvar_load rd ?v dvar (e1\<lparr>mach := m\<rparr>)", OF assms(1) a(3) this]
  show ?thesis unfolding dynvar_undef_def key using assms(4) a(1) by (simp add: exec_ldaa_def)
qed

lemma exec_staa_st:
  assumes "host_ok h" "emu_wf e" "rd < 8" "var_id i = Some j"
    "if tls then j < length (dtvs_tlocals (mach e)) else global_ok (mach e) j"
  shows "exec_st e (dynvar_undef h (assoc_tuple j e) tls (dynvar_size (assoc_var tls j (mach e)))
    (store_oper (regs e ! rd)) (mach e)) (exec_staa h tls i rd e)"
proof (rule assoc_key_cases [OF assms(2,5), of h])
  assume "tls" "DTRACE_TLS_THRKEY h = None" "assoc_key h tls j e = None"
  then show ?thesis using assms(2-4) by (simp add: exec_st_def dynvar_undef_def exec_staa_def rget_wf)
next
  fix key e1
  let ?v = "assoc_var tls j (mach e)" and ?x = "regs e ! rd"
  assume key: "(if tls then map_option (\<lambda>k. assoc_tuple j e @ [(k, 0)]) (DTRACE_TLS_THRKEY h) else Some (assoc_tuple j e)) = Some key"
    and a: "assoc_key h tls j e = Some (?v, key, e1)" "emu_wf e1" "mach e1 = mach e" "regs e1 = regs e"
  have "exec_ok (e1\<lparr>mach := m\<rparr>) (dynvar_store h ?x ?v dvar (e1\<lparr>mach := m\<rparr>))" for dvar m
    using a(2) assms(1) by (intro dynvar_store_ok) simp_all
  from dynvar_st [where f = "\<lambda>dvar m. dynvar_store h ?x ?v dvar (e1\<lparr>mach := m\<rparr>)", OF assms(1) a(3) this]
  show ?thesis unfolding dynvar_undef_def key using assms(2-4) a(1)
    by (simp add: exec_staa_def rget_wf store_oper_def [symmetric])
qed

lemma exec_pushtr_ok:
  assumes "host_ok h" "emu_wf e" "r2 < 8" "rd < 8"
  shows "exec_ok e (exec_pushtr h r1 r2 rd e)"
proof -
  let ?n = "if regs e ! r2 \<noteq> 0 then regs e ! r2 else dtrace_strsize_default h"
  have t: "ttop e \<le> 8" using assms(2) by (simp add: emu_wf_def)
  obtain len m where s: "dtrace_strlen h (regs e ! rd) ?n (mach e) = Some (len, m)" "mach_frame (mach e) m"
    by (rule dtrace_strlen_total [OF host_okD(1) [OF assms(1)] host_okD(2) [OF assms(1)]])
  show ?thesis
    using assms(2-4) t s by (auto simp: exec_pushtr_def wf_simps tset_wf mach_frame_vars)
qed

lemma exec_pushtv_ok: "emu_wf e \<Longrightarrow> rd < 8 \<Longrightarrow> exec_ok e (exec_pushtv rd e)"
  by (auto simp: exec_pushtv_def wf_simps tset_wf emu_wf_def rget_def tset_def)

lemma exec_call_st:
  assumes "host_ok h" "emu_wf e" "rd < 8"
  shows "exec_st e (dtrace_dif_subr h subr (regs e) (tupregs e) (ttop e) (mach e) = None) (exec_call h subr rd e)"
proof (cases "dtrace_dif_subr h subr (regs e) (tupregs e) (ttop e) (mach e)")
  case (Some r)
  obtain x m where r: "r = (x, m)" by (cases r)
  have "vars_keep (mach e) m" using host_okD(5) [OF assms(1)] Some r by blast
  then show ?thesis using Some r assms(2,3) by (cases x) (simp_all add: exec_call_def exec_st_def wf_simps)
qed (simp add: exec_call_def exec_st_def)

text \<open>The arithmetic instructions that C leaves undefined: the quotient that does not fit, and large shifts.\<close>

definition alu_undef :: "dif_op \<Rightarrow> u64 \<Rightarrow> u64 \<Rightarrow> bool" where
  "alu_undef op x y \<longleftrightarrow>
     op \<in> {DIF_OP_SDIV, DIF_OP_SREM} \<and> x = 0x8000000000000000 \<and> y = -1 \<or>
     op \<in> {DIF_OP_SLL, DIF_OP_SRL, DIF_OP_SRA} \<and> 64 \<le> unat y"

lemma dif_alu_st:
  "op \<in> {DIF_OP_OR, DIF_OP_XOR, DIF_OP_AND, DIF_OP_SLL, DIF_OP_SRL, DIF_OP_SUB, DIF_OP_ADD, DIF_OP_MUL,
     DIF_OP_SDIV, DIF_OP_UDIV, DIF_OP_SREM, DIF_OP_UREM, DIF_OP_SRA} \<Longrightarrow>
   dif_alu op x y = None \<longleftrightarrow> alu_undef op x y"
  by (auto simp: dif_alu_def alu_undef_def sdiv64_def srem64_def split: if_splits)

lemma exec_alu_st:
  assumes "emu_wf e" "r1 < 8" "r2 < 8" "rd < 8"
    "op \<in> {DIF_OP_OR, DIF_OP_XOR, DIF_OP_AND, DIF_OP_SLL, DIF_OP_SRL, DIF_OP_SUB, DIF_OP_ADD, DIF_OP_MUL,
     DIF_OP_SDIV, DIF_OP_UDIV, DIF_OP_SREM, DIF_OP_UREM, DIF_OP_SRA}"
  shows "exec_st e (alu_undef op (regs e ! r1) (regs e ! r2)) (exec_alu op r1 r2 rd e)"
proof (cases "dif_alu op (regs e ! r1) (regs e ! r2) = None")
  case True
  then have "alu_undef op (regs e ! r1) (regs e ! r2)" using dif_alu_st [OF assms(5)] by blast
  then show ?thesis using True assms(1-3) by (simp add: exec_st_def exec_alu_def rget_wf)
next
  case False
  then show ?thesis using dif_alu_st [OF assms(5)] exec_alu_ok [OF assms(1-4) False] by (simp only: exec_st_def if_False)
qed

lemma var_id_user: "1280 \<le> DIF_INSTR_VAR i \<Longrightarrow> var_id i = Some (DIF_INSTR_VAR i - 1280)"
  by (simp add: var_id_def)

lemma flag_rset_ok: "emu_wf e \<Longrightarrow> rd < 8 \<Longrightarrow> exec_ok e (rset (emu_flag f e) rd v)"
  by (simp add: wf_simps)

lemma exec_mach [simp]: "mach (exec_branch op i e) = mach e" "mach (exec_popts e) = mach e"
  by (simp_all add: exec_branch_def exec_popts_def)

lemma dif_alu_ok:
  "op \<in> {DIF_OP_OR, DIF_OP_XOR, DIF_OP_AND, DIF_OP_SUB, DIF_OP_ADD, DIF_OP_MUL, DIF_OP_UDIV, DIF_OP_UREM} \<Longrightarrow>
   dif_alu op x y \<noteq> None"
  by (auto simp: dif_alu_def)

lemma alu_undef_other:
  "op \<notin> {DIF_OP_SDIV, DIF_OP_SREM, DIF_OP_SLL, DIF_OP_SRL, DIF_OP_SRA} \<Longrightarrow> \<not> alu_undef op x y"
  by (auto simp: alu_undef_def)

text \<open>
  The states in which an instruction has undefined behaviour: an arithmetic instruction with operands C
  gives no result for, and a call of a built-in variable, a subroutine or a dynamic variable that has none.
\<close>

definition instr_undef :: "host \<Rightarrow> dif_instr \<Rightarrow> emu \<Rightarrow> bool" where
  "instr_undef h i e =
     (let x = regs e ! DIF_INSTR_R1 i; y = regs e ! DIF_INSTR_R2 i; z = regs e ! DIF_INSTR_RD i;
          v = DIF_INSTR_VAR i; j = v - DIF_VAR_OTHER_UBASE; m = mach e in
      case DIF_INSTR_OP i of
        None \<Rightarrow> False
      | Some op \<Rightarrow>
          (case op of
             DIF_OP_LDGA \<Rightarrow> dtrace_dif_variable h (DIF_INSTR_R1 i) y m = None
           | DIF_OP_LDGS \<Rightarrow> v < DIF_VAR_OTHER_UBASE \<and> dtrace_dif_variable h v 0 m = None
           | DIF_OP_CALL \<Rightarrow> dtrace_dif_subr h (DIF_INSTR_SUBR i) (regs e) (tupregs e) (ttop e) m = None
           | DIF_OP_LDTS \<Rightarrow> dynvar_undef h (var_tuple j) True 8 DTRACE_DYNVAR_NOALLOC m
           | DIF_OP_STTS \<Rightarrow> dynvar_undef h (var_tuple j) True (dynvar_size (dtvs_tlocals m ! j)) (store_oper z) m
           | DIF_OP_LDTAA \<Rightarrow> dynvar_undef h (assoc_tuple j e) True (dynvar_size (assoc_var True j m)) DTRACE_DYNVAR_NOALLOC m
           | DIF_OP_LDGAA \<Rightarrow> dynvar_undef h (assoc_tuple j e) False (dynvar_size (assoc_var False j m)) DTRACE_DYNVAR_NOALLOC m
           | DIF_OP_STTAA \<Rightarrow> dynvar_undef h (assoc_tuple j e) True (dynvar_size (assoc_var True j m)) (store_oper z) m
           | DIF_OP_STGAA \<Rightarrow> dynvar_undef h (assoc_tuple j e) False (dynvar_size (assoc_var False j m)) (store_oper z) m
           | _ \<Rightarrow> alu_undef op x y))"

lemmas exec_oks = exec_alu_ok dif_alu_ok exec_basic_ok exec_allocs_ok exec_load_ok exec_uload_ok exec_copys_ok
  exec_scmp_ok exec_stgs_ok exec_ldls_ok exec_stls_ok exec_pushtr_ok exec_pushtv_ok flag_rset_ok

lemmas exec_sts = exec_alu_st exec_variable_st exec_ldgs_st exec_ldts_st exec_stts_st exec_ldaa_st exec_staa_st
  exec_call_st

lemma dif_exec_st:
  assumes "host_ok h" "emu_wf e" "check_instr 8 dp p i = 0" "instr_vars_ok h (mach e) i"
  shows "exec_st e (instr_undef h i e) (dif_exec h dp i e)"
proof -
  obtain op where op: "DIF_INSTR_OP i = Some op"
    using assms(3) by (cases "DIF_INSTR_OP i") (auto simp: check_instr_def)
  have rs: "DIF_INSTR_RS i = DIF_INSTR_RD i" by (simp add: DIF_INSTR_RS_def DIF_INSTR_RD_def)
  show ?thesis
    using assms(3,4)
    by (cases op; simp add: op check_instr_def dif_exec_def check_defs instr_vars_ok_def instr_undef_def rs
        alu_undef_other exec_st_simps exec_oks exec_sts assms(1,2) rget_wf var_id_user exec_ok_Some Let_def)
qed

lemma instr_undef_pc [simp]: "instr_undef h i (e\<lparr>opc := p, pc := q\<rparr>) = instr_undef h i e"
proof -
  have views: "regs (e\<lparr>opc := p, pc := q\<rparr>) = regs e" "tupregs (e\<lparr>opc := p, pc := q\<rparr>) = tupregs e"
    "ttop (e\<lparr>opc := p, pc := q\<rparr>) = ttop e" "mach (e\<lparr>opc := p, pc := q\<rparr>) = mach e" by simp_all
  show ?thesis unfolding instr_undef_def assoc_tuple_def views ..
qed

text \<open>A step on validated text is undefined exactly in those states, and keeps the variables otherwise.\<close>

lemma dif_step_st:
  assumes "host_ok h" "difo_text_valid 8 dp" "emu_wf e" "list_all (instr_vars_ok h (mach e)) (dtdo_buf dp)" "dif_running dp e"
  shows "if instr_undef h (dtdo_buf dp ! pc e) e then dif_step h dp e = None
    else \<exists>e'. dif_step h dp e = Some e' \<and> emu_wf e' \<and> list_all (instr_vars_ok h (mach e')) (dtdo_buf dp)"
proof -
  let ?i = "dtdo_buf dp ! pc e" and ?e = "e\<lparr>opc := pc e, pc := pc e + 1\<rparr>"
  have pc: "pc e < length (dtdo_buf dp)" using assms(5) by (simp add: dif_running_def)
  have "exec_st ?e (instr_undef h ?i ?e) (dif_exec h dp ?i ?e)"
    using assms pc by (intro dif_exec_st [of _ _ _ "pc e"]) (auto simp: difo_text_valid_def list_all_length)
  then have st: "exec_st ?e (instr_undef h ?i e) (dif_step h dp e)" by (simp add: dif_step_def)
  show ?thesis
  proof (cases "instr_undef h ?i e")
    case False
    then obtain e' where e': "dif_step h dp e = Some e'" "vars_keep (mach e) (mach e')"
      using st by (auto simp: exec_st_def exec_ok_def)
    have "emu_wf e'" using assms(3) dif_step_keeps(1) [OF assms(2) pc e'(1)] by (rule emu_wf_keeps)
    moreover have "list_all (instr_vars_ok h (mach e')) (dtdo_buf dp)"
      using assms(4) instr_vars_ok_keep [OF e'(2)] by (auto simp: list_all_iff)
    ultimately show ?thesis using False e'(1) by simp
  qed (use st in \<open>simp add: exec_st_def\<close>)
qed

section \<open>Reachable states\<close>

inductive dif_reach :: "host \<Rightarrow> dtrace_difo \<Rightarrow> emu \<Rightarrow> emu \<Rightarrow> bool" for h dp where
  reach_refl: "dif_reach h dp e e"
| reach_step: "dif_reach h dp e e' \<Longrightarrow> dif_running dp e' \<Longrightarrow> dif_step h dp e' = Some e'' \<Longrightarrow> dif_reach h dp e e''"

inductive_cases dif_reachE: "dif_reach h dp e e'"

lemma reach_trans: "dif_reach h dp e' e'' \<Longrightarrow> dif_reach h dp e e' \<Longrightarrow> dif_reach h dp e e''"
  by (induction rule: dif_reach.induct) (auto intro: reach_step)

lemma dif_loop_reach:
  "dif_loop h dp n e = Returned e' \<Longrightarrow> dif_reach h dp e e' \<and> \<not> dif_running dp e'"
proof (induction n arbitrary: e)
  case (Suc n)
  show ?case
  proof (cases "dif_running dp e")
    case True
    then obtain e1 where "dif_step h dp e = Some e1" "dif_loop h dp n e1 = Returned e'"
      using Suc.prems by (auto split: option.splits)
    then show ?thesis
      using Suc.IH True by (blast intro: reach_trans reach_step reach_refl)
  qed (use Suc.prems in \<open>simp add: reach_refl\<close>)
qed (simp add: reach_refl split: if_splits)

lemma reach_head:
  "dif_reach h dp e e' \<Longrightarrow> e' = e \<or> (\<exists>e1. dif_running dp e \<and> dif_step h dp e = Some e1 \<and> dif_reach h dp e1 e')"
  by (induction rule: dif_reach.induct) (auto intro: reach_refl reach_step)

lemma dif_loop_undefined:
  "dif_loop h dp n e = Undefined \<Longrightarrow> \<exists>e'. dif_reach h dp e e' \<and> dif_running dp e' \<and> dif_step h dp e' = None"
proof (induction n arbitrary: e)
  case (Suc n)
  show ?case
  proof (cases "dif_step h dp e")
    case None
    then show ?thesis using Suc.prems by (auto intro: reach_refl split: if_splits)
  next
    case (Some e1)
    then have r: "dif_running dp e" "dif_loop h dp n e1 = Undefined" using Suc.prems by (auto split: if_splits)
    then have "dif_reach h dp e e1" using Some by (blast intro: reach_step reach_refl)
    then show ?thesis using Suc.IH [OF r(2)] reach_trans by blast
  qed
qed (simp split: if_splits)

lemma dif_loop_returned:
  "dif_loop h dp n e = Returned e1 \<Longrightarrow> dif_reach h dp e e' \<Longrightarrow> dif_running dp e' \<Longrightarrow> dif_step h dp e' \<noteq> None"
proof (induction n arbitrary: e)
  case 0
  then have "\<not> dif_running dp e" by (auto split: if_splits)
  then show ?case using 0 reach_head [OF "0.prems"(2)] by auto
next
  case (Suc n)
  show ?case
  proof (cases "e' = e")
    case True
    then show ?thesis using Suc.prems(1,3) by (auto split: option.splits)
  next
    case False
    then obtain e2 where "dif_running dp e" "dif_step h dp e = Some e2" "dif_reach h dp e2 e'"
      using reach_head [OF Suc.prems(2)] by blast
    then show ?thesis using Suc.IH [of e2] Suc.prems(1,3) by simp
  qed
qed

lemma dif_reach_ok:
  assumes "dif_reach h dp e e'" "host_ok h" "difo_text_valid 8 dp" "emu_wf e" "list_all (instr_vars_ok h (mach e)) (dtdo_buf dp)"
  shows "emu_wf e' \<and> list_all (instr_vars_ok h (mach e')) (dtdo_buf dp)"
  using assms
proof (induction rule: dif_reach.induct)
  case (reach_step e e' e'')
  then show ?case using dif_step_st [of h dp e'] by (auto split: if_splits)
qed simp

lemma emu_wf_init: "length regs0 = 8 \<Longrightarrow> length tup0 = 10 \<Longrightarrow> emu_wf (emu_init dp regs0 tup0 m)"
  by (simp add: emu_wf_def emu_init_def)

definition pc_ok :: "dtrace_difo \<Rightarrow> emu \<Rightarrow> bool" where
  "pc_ok dp e \<longleftrightarrow> pc e \<le> length (dtdo_buf dp) \<and> (pc e \<noteq> 0 \<longrightarrow> opc e < pc e)"

lemma dif_reach_inv:
  assumes "dif_reach h dp e e'" "difo_text_valid 8 dp" "emu_wf e" "pc_ok dp e"
  shows "emu_wf e' \<and> pc_ok dp e'"
  using assms
proof (induction rule: dif_reach.induct)
  case (reach_step e e' e'')
  have "pc e' < length (dtdo_buf dp)" using reach_step.hyps(2) by (simp add: dif_running_def)
  from dif_step_keeps [OF reach_step.prems(1) this reach_step.hyps(3)]
  show ?case
    using reach_step.IH reach_step.prems by (auto simp: pc_ok_def intro: emu_wf_keeps)
qed simp

lemma dif_reach_pc:
  assumes "dif_reach h dp e e'" "difo_text_valid 8 dp"
  shows "e' = e \<or> pc e < pc e'"
  using assms
proof (induction rule: dif_reach.induct)
  case (reach_step e e' e'')
  have "pc e' < length (dtdo_buf dp)" using reach_step.hyps(2) by (simp add: dif_running_def)
  from dif_step_keeps(2) [OF reach_step.prems(1) this reach_step.hyps(3)]
  show ?case using reach_step.IH reach_step.prems by auto
qed simp

lemma emulate_cases:
  "dtrace_dif_emulate h n dp regs0 tup0 m = Timeout \<longleftrightarrow> dif_loop h dp n (emu_init dp regs0 tup0 m) = Timeout"
  "dtrace_dif_emulate h n dp regs0 tup0 m = Undefined \<longleftrightarrow> dif_loop h dp n (emu_init dp regs0 tup0 m) = Undefined"
  by (simp_all add: dtrace_dif_emulate_def split: outcome.splits)

text \<open>The facts that run an object on a concrete machine, and those that validate one.\<close>

lemmas run_simps = dtrace_dif_emulate_def dif_running_def cpu_fault_def CPU_DTRACE_FAULT_def dif_step_def
  emu_init_def dif_exec_def FMT_fields rget_def rset_def emu_flag_def mach0_def DTRACE_CPUFLAG_SET_def
  emu_result_def exec_ret_def

lemmas validate_simps = dtrace_difo_validate_def difo0_def diftype0_def kcheckload_def check_instr_def
  FMT_fields check_defs rewrite_instr_def unrestricted_load_def destructive_instr_def check_last_def
  check_rtype_def err_def DIF_TF_BYREF_def

section \<open>Properties\<close>

text \<open>
  \<^bold>\<open>C2.\<close> The emulator terminates on every validated object: whatever the registers, the machine and the
  host do, \<^verbatim>\<open>dtrace_dif_emulate\<close> never needs more iterations than the object has instructions.
\<close>

theorem dif_emulate_terminates:
  assumes "dtrace_difo_validate gmax mv 8 cr dp = (0, dp')" "length (dtdo_buf dp') \<le> fuel"
  shows "dtrace_dif_emulate h fuel dp' regs0 tup0 m \<noteq> Timeout"
  using dif_loop_terminates [OF validate_ok(3) [OF assms(1)]] assms(2)
  by (simp add: emulate_cases)

theorem dif_emulate_terminates_witness:
  "dtrace_dif_emulate host0 2 (snd (dtrace_difo_validate 0 mach0 8 None example_difo))
     (replicate 8 0) (replicate 10 (0, 0)) mach0 \<noteq> Timeout"
  using dif_emulate_terminates [OF example_difo_validates [of 0 mach0], of 2 host0]
  by (simp add: example_difo_validates)


lemma host0_ok: "host_ok host0"
  by (simp add: host_ok_def host0_def)

definition shift_difo :: dtrace_difo where
  "shift_difo = difo0\<lparr>dtdo_buf := [DIF_INSTR_FMT DIF_OP_SLL 1 2 3, DIF_INSTR_FMT DIF_OP_RET 0 0 3]\<rparr>"

lemma shift_difo_validates: "dtrace_difo_validate 0 mach0 8 None shift_difo = (0, shift_difo)"
  by (simp add: validate_simps shift_difo_def)


text \<open>
  \<^bold>\<open>C3.\<close> In every state the emulator reaches on a validated object, \<^verbatim>\<open>%r0\<close> is 0, the register file and
  the tuple array have their size, the tuple stack is not over its limit, the program counter is within
  the text or at its end, and the instruction executed last lies before it.
\<close>

theorem dif_reach_invariant:
  assumes "dtrace_difo_validate gmax mv 8 cr dp = (0, dp')"
    and "length regs0 = DIF_DIR_NREGS" "length tup0 = DIF_DTR_NREGS + 2"
    and "dif_reach h dp' (emu_init dp' regs0 tup0 m) e"
  shows "length (regs e) = DIF_DIR_NREGS \<and> regs e ! 0 = 0 \<and> length (tupregs e) = DIF_DTR_NREGS + 2 \<and>
    ttop e \<le> DIF_DTR_NREGS \<and> pc e \<le> length (dtdo_buf dp') \<and> (pc e \<noteq> 0 \<longrightarrow> opc e < pc e)"
  using dif_reach_inv [OF assms(4) validate_ok(3) [OF assms(1)] emu_wf_init] assms(2,3)
  by (simp add: emu_wf_def pc_ok_def emu_init_def)

definition mov_difo :: dtrace_difo where
  "mov_difo = difo0\<lparr>dtdo_buf := [DIF_INSTR_FMT DIF_OP_MOV 1 0 2, DIF_INSTR_FMT DIF_OP_RET 0 0 2]\<rparr>"

lemma mov_difo_validates: "dtrace_difo_validate 0 mach0 8 None mov_difo = (0, mov_difo)"
  by (simp add: validate_simps mov_difo_def)

theorem dif_reach_invariant_witness:
  "\<exists>e. dif_reach host0 mov_difo (emu_init mov_difo (replicate 8 7) (replicate 10 (0, 0)) mach0) e \<and>
     regs e ! 0 = 0 \<and> regs e ! 2 = 7 \<and> opc e < pc e"
proof -
  let ?e = "emu_init mov_difo (replicate 8 7) (replicate 10 (0, 0)) mach0"
  obtain e where e: "dif_step host0 mov_difo ?e = Some e" "regs e ! 2 = 7" "pc e = 1"
    by (simp add: dif_step_def emu_init_def mov_difo_def dif_exec_def FMT_fields exec_mov_def rget_def rset_def
        numeral_eq_Suc)
  have "dif_running mov_difo ?e"
    by (simp add: dif_running_def emu_init_def mov_difo_def mach0_def cpu_fault_def)
  then have r: "dif_reach host0 mov_difo ?e e"
    using e(1) by (rule reach_step [OF reach_refl])
  then show ?thesis
    using dif_reach_invariant [OF mov_difo_validates, of "replicate 8 7" "replicate 10 (0, 0)" host0 mach0 e] e
    by auto
qed


text \<open>
  \<^bold>\<open>C4.\<close> A fault aborts the object and is attributed to the instruction that raised it: when the emulation of
  a validated object returns with a fault, it had reached a state without one, the instruction at the program
  counter of that state raised it, nothing was executed after it, the result is 0, and the machine that is
  left has the byte offset of that instruction in \<^verbatim>\<open>dtms_fltoffs\<close> and \<^verbatim>\<open>DTRACE_MSTATE_FLTOFFS\<close> set.
\<close>

theorem dif_emulate_fault:
  assumes "dtrace_difo_validate gmax mv 8 cr dp = (0, dp')"
    and "dtrace_dif_emulate h fuel dp' regs0 tup0 m = Returned (r, m')" "\<not> cpu_fault m" "cpu_fault m'"
  shows "\<exists>e e'. dif_reach h dp' (emu_init dp' regs0 tup0 m) e \<and> pc e < length (dtdo_buf dp') \<and> \<not> cpu_fault (mach e) \<and>
    dif_step h dp' e = Some e' \<and> cpu_fault (mach e') \<and> r = 0 \<and>
    m' = (mach e')\<lparr>dtms_fltoffs := pc e * 4, dtms_present := dtms_present (mach e') OR DTRACE_MSTATE_FLTOFFS\<rparr>"
proof -
  let ?e = "emu_init dp' regs0 tup0 m"
  obtain e' where e': "dif_loop h dp' fuel ?e = Returned e'" "emu_result e' = (r, m')"
    using assms(2) by (auto simp: dtrace_dif_emulate_def split: outcome.splits)
  have f: "cpu_fault (mach e')" using e'(2) assms(4) by (auto simp: emu_result_def split: if_splits)
  then have "e' \<noteq> ?e" using assms(3) by (auto simp: emu_init_def cpu_fault_def)
  moreover have "dif_reach h dp' ?e e'" using dif_loop_reach [OF e'(1)] by simp
  ultimately obtain e where e: "dif_reach h dp' ?e e" "dif_running dp' e" "dif_step h dp' e = Some e'"
    by (auto elim: dif_reachE)
  have pc: "pc e < length (dtdo_buf dp')" "\<not> cpu_fault (mach e)" using e(2) by (simp_all add: dif_running_def)
  have "opc e' = pc e" by (rule dif_step_keeps(4) [OF validate_ok(3) [OF assms(1)] pc(1) e(3)])
  then show ?thesis using e pc f e'(2) by (auto simp: emu_result_def)
qed

text \<open>An object whose second instruction divides by zero.\<close>

definition div0_difo :: dtrace_difo where
  "div0_difo = difo0\<lparr>dtdo_buf := [DIF_INSTR_FMT DIF_OP_MOV 1 0 2, DIF_INSTR_FMT DIF_OP_UDIV 1 0 2, DIF_INSTR_FMT DIF_OP_RET 0 0 2]\<rparr>"

lemma div0_difo_validates: "dtrace_difo_validate 0 mach0 8 None div0_difo = (0, div0_difo)"
  by (simp add: validate_simps div0_difo_def)

definition div0_mach :: mach where
  "div0_mach = mach0\<lparr>cpuc_dtrace_flags := CPU_DTRACE_DIVZERO, dtms_difo := div0_difo, dtms_fltoffs := 4,
     dtms_present := DTRACE_MSTATE_FLTOFFS\<rparr>"

lemma div0_difo_runs:
  "dtrace_dif_emulate host0 (Suc (Suc (Suc 0))) div0_difo [7, 7, 7, 7, 7, 7, 7, 7] (replicate 10 (0, 0)) mach0
   = Returned (0, div0_mach)"
  by (simp add: run_simps div0_difo_def div0_mach_def exec_mov_def exec_alu_def dif_alu_def)

theorem dif_emulate_fault_witness:
  "\<exists>m' e e'. dtrace_dif_emulate host0 3 div0_difo [7, 7, 7, 7, 7, 7, 7, 7] (replicate 10 (0, 0)) mach0 = Returned (0, m') \<and>
    dif_reach host0 div0_difo (emu_init div0_difo [7, 7, 7, 7, 7, 7, 7, 7] (replicate 10 (0, 0)) mach0) e \<and>
    \<not> cpu_fault (mach e) \<and> pc e = 1 \<and> dif_step host0 div0_difo e = Some e' \<and> cpu_fault (mach e') \<and> dtms_fltoffs m' = 4"
proof -
  have f: "\<not> cpu_fault mach0" "cpu_fault div0_mach"
    by (simp_all add: cpu_fault_def mach0_def div0_mach_def CPU_DTRACE_FAULT_def)
  obtain e e' where e: "dif_reach host0 div0_difo (emu_init div0_difo [7, 7, 7, 7, 7, 7, 7, 7] (replicate 10 (0, 0)) mach0) e"
    "\<not> cpu_fault (mach e)" "dif_step host0 div0_difo e = Some e'" "cpu_fault (mach e')"
    "div0_mach = (mach e')\<lparr>dtms_fltoffs := pc e * 4, dtms_present := dtms_present (mach e') OR DTRACE_MSTATE_FLTOFFS\<rparr>"
    using dif_emulate_fault [OF div0_difo_validates div0_difo_runs f] by (elim exE conjE) (rule that)
  have "pc e * 4 = dtms_fltoffs div0_mach" by (subst e(5)) simp
  then have "pc e = 1" "dtms_fltoffs div0_mach = 4" by (simp_all add: div0_mach_def)
  then show ?thesis using e div0_difo_runs by (auto simp: numeral_3_eq_3)
qed

end
