(* ===== verification/DT_Match.thy ===== *)
theory DT_Match
  imports DT_Prelude
begin

text \<open>
  Matching of probe description elements (\<^verbatim>\<open>driver/dtrace.c\<close>, \<open>DTrace Matching Functions\<close>): the glob
  matcher with its recursion limit, the other match functions a probe key can hold, the choice between
  them, and the test of names.

  A pointer to a C string is a \<^typ>\<open>cstr option\<close>, NULL is \<open>None\<close>; reading the terminating NUL is
  reading past the end of the list.
\<close>

abbreviation (input) chr_star :: u8 where "chr_star \<equiv> 0x2A"
abbreviation (input) chr_quest :: u8 where "chr_quest \<equiv> 0x3F"
abbreviation (input) chr_lbrack :: u8 where "chr_lbrack \<equiv> 0x5B"
abbreviation (input) chr_bslash :: u8 where "chr_bslash \<equiv> 0x5C"
abbreviation (input) chr_rbrack :: u8 where "chr_rbrack \<equiv> 0x5D"
abbreviation (input) chr_bang :: u8 where "chr_bang \<equiv> 0x21"
abbreviation (input) chr_dash :: u8 where "chr_dash \<equiv> 0x2D"

abbreviation (input) DTRACE_PROBEKEY_MAXDEPTH :: nat where "DTRACE_PROBEKEY_MAXDEPTH \<equiv> 8"

section \<open>Characters and strings\<close>

text \<open>\<^verbatim>\<open>char\<close> is signed: \<open>a\<close> to \<open>b\<close> in the order of \<^verbatim>\<open>char\<close>.\<close>

definition char_between :: "u8 \<Rightarrow> u8 \<Rightarrow> u8 \<Rightarrow> bool" where
  "char_between a x b \<longleftrightarrow> sint a \<le> sint x \<and> sint x \<le> sint b"

text \<open>\<^verbatim>\<open>(c = *p++) == '\0'\<close> as the test that ends the match.\<close>

fun next_char :: "cstr \<Rightarrow> (u8 \<times> cstr) option" where
  "next_char [] = None"
| "next_char (c # p) = Some (c, p)"

definition unescape :: "u8 \<Rightarrow> cstr \<Rightarrow> (u8 \<times> cstr) option" where
  "unescape c p = (if c = chr_bslash then next_char p else Some (c, p))"

text \<open>
  \<^verbatim>\<open>dtrace_strcmp\<close> returns the second character minus the first at the first difference (the sign
  convention is opposite to \<^verbatim>\<open>strcmp\<close>).
\<close>

fun dtrace_strcmp :: "cstr \<Rightarrow> cstr \<Rightarrow> int" where
  "dtrace_strcmp [] [] = 0"
| "dtrace_strcmp [] (y # ys) = sint y"
| "dtrace_strcmp (x # xs) [] = - sint x"
| "dtrace_strcmp (x # xs) (y # ys) = (if sint y - sint x \<noteq> 0 then sint y - sint x else dtrace_strcmp xs ys)"

section \<open>Glob patterns\<close>

text \<open>
  The loop over a bracket expression, on the subject character \<^verbatim>\<open>s1\<close>: \<open>None\<close> when it returns 0,
  otherwise whether an element matched and the pattern after the bracket.
\<close>

definition class_test :: "bool \<Rightarrow> bool \<Rightarrow> bool \<Rightarrow> bool option" where
  "class_test notflag ok hit =
     (if notflag then (if hit then None else Some True) else Some (ok \<or> hit))"

definition class_elem :: "bool \<Rightarrow> u8 \<Rightarrow> bool \<Rightarrow> u8 \<Rightarrow> u8 \<Rightarrow> cstr \<Rightarrow> (bool \<times> u8 \<times> cstr) option" where
  "class_elem notflag s1 ok lc c p =
     (if c = chr_dash \<and> lc \<noteq> 0 \<and> \<not> (p \<noteq> [] \<and> hd p = chr_rbrack) then do {
        (c, p) \<leftarrow> next_char p;
        (c, p) \<leftarrow> unescape c p;
        ok \<leftarrow> class_test notflag ok (char_between lc s1 c);
        Some (ok, c, p)
      }
      else do {
        (c, p) \<leftarrow> unescape c p;
        Some (ok, c, p)
      })"

lemma unescape_length: "unescape c p = Some (c', p') \<Longrightarrow> length p' \<le> length p"
  by (cases p) (auto simp: unescape_def split: if_splits)

lemma class_elem_length: "class_elem nf s1 ok lc c p = Some (ok', c', p') \<Longrightarrow> length p' \<le> length p"
  by (cases p) (auto simp: class_elem_def dest!: unescape_length elim!: do_elims split: if_split_asm)

function glob_class :: "bool \<Rightarrow> u8 \<Rightarrow> bool \<Rightarrow> u8 \<Rightarrow> u8 \<Rightarrow> cstr \<Rightarrow> (bool \<times> cstr) option" where
  "glob_class notflag s1 ok lc c p =
     (case class_elem notflag s1 ok lc c p of
        None \<Rightarrow> None
      | Some (ok, c, p) \<Rightarrow>
          (let lc = c in
           case class_test notflag ok (s1 = c) of
             None \<Rightarrow> None
           | Some ok \<Rightarrow>
               (case p of
                  [] \<Rightarrow> None
                | c # p \<Rightarrow> if c = chr_rbrack then Some (ok, p) else glob_class notflag s1 ok lc c p)))"
  by pat_completeness auto
termination
  by (relation "measure (\<lambda>(notflag, s1, ok, lc, c, p). length p)") (auto dest!: class_elem_length)

declare glob_class.simps [simp del]

definition glob_bracket :: "u8 \<Rightarrow> cstr \<Rightarrow> (bool \<times> cstr) option" where
  "glob_bracket s1 p =
     (let notflag = (p \<noteq> [] \<and> hd p = chr_bang) in
      case (if notflag then tl p else p) of
        [] \<Rightarrow> None
      | c # p \<Rightarrow> glob_class notflag s1 False 0 c p)"

lemma glob_class_length: "glob_class nf s1 ok lc c p = Some (ok', p') \<Longrightarrow> length p' < length p"
proof (induction nf s1 ok lc c p rule: glob_class.induct)
  case (1 nf s1 ok lc c p)
  obtain ok2 c2 p2 where e: "class_elem nf s1 ok lc c p = Some (ok2, c2, p2)"
    using "1.prems" by (subst (asm) glob_class.simps) (auto split: option.splits)
  then have "length p2 \<le> length p" by (rule class_elem_length)
  moreover have "length p' < length p2"
    using "1.prems" e "1.IH" [OF e refl]
    by (subst (asm) glob_class.simps) (fastforce simp: Let_def split: option.splits list.splits if_splits)
  ultimately show ?case by simp
qed

lemma glob_bracket_length: "glob_bracket s1 p = Some (ok, p') \<Longrightarrow> length p' < length p"
  by (cases p) (auto simp: glob_bracket_def Let_def split: if_splits list.splits dest!: glob_class_length)


text \<open>
  The matcher. A jump to \<^verbatim>\<open>top\<close> is a call at the same depth, \<open>glob_star\<close> is the \<^verbatim>\<open>for\<close> loop of
  the case \<^verbatim>\<open>'*'\<close>.
\<close>

function glob :: "nat \<Rightarrow> cstr \<Rightarrow> cstr \<Rightarrow> int" and glob_star :: "nat \<Rightarrow> cstr \<Rightarrow> cstr \<Rightarrow> int" where
  "glob depth s p =
     (if depth > DTRACE_PROBEKEY_MAXDEPTH then -1
      else
        (case p of
           [] \<Rightarrow> if s = [] then 1 else 0
         | c # p \<Rightarrow>
             if c = chr_lbrack then
               (case s of
                  [] \<Rightarrow> 0
                | s1 # s \<Rightarrow>
                    (case glob_bracket s1 p of
                       None \<Rightarrow> 0
                     | Some (ok, p) \<Rightarrow> if ok then glob depth s p else 0))
             else if c = chr_star then
               (let p = dropWhile (\<lambda>c. c = chr_star) p in
                if p = [] then 1 else glob_star (depth + 1) s p)
             else if c = chr_quest then
               (case s of [] \<Rightarrow> 0 | s1 # s \<Rightarrow> glob depth s p)
             else
               (case unescape c p of
                  None \<Rightarrow> 0
                | Some (c, p) \<Rightarrow>
                    (case s of [] \<Rightarrow> 0 | s1 # s \<Rightarrow> if c \<noteq> s1 then 0 else glob depth s p))))"
| "glob_star depth s p =
     (case s of
        [] \<Rightarrow> 0
      | s1 # s' \<Rightarrow> (let gs = glob depth s p in if gs \<noteq> 0 then gs else glob_star depth s' p))"
  by pat_completeness auto
termination
proof (relation "measures [\<lambda>x. case x of Inl (d, s, p) \<Rightarrow> length p | Inr (d, s, p) \<Rightarrow> length p,
    \<lambda>x. case x of Inl (d, s, p) \<Rightarrow> length s | Inr (d, s, p) \<Rightarrow> length s,
    \<lambda>x. case x of Inl _ \<Rightarrow> 0 | Inr _ \<Rightarrow> 1]")
qed (auto dest!: glob_bracket_length unescape_length simp: le_imp_less_Suc length_dropWhile_le)

declare glob.simps [simp del] glob_star.simps [simp del]

definition dtrace_match_glob :: "cstr option \<Rightarrow> cstr option \<Rightarrow> nat \<Rightarrow> int" where
  "dtrace_match_glob s p depth =
     (if depth > DTRACE_PROBEKEY_MAXDEPTH then -1
      else case p of None \<Rightarrow> 0 | Some p \<Rightarrow> glob depth (case s of None \<Rightarrow> [] | Some s \<Rightarrow> s) p)"

definition dtrace_match_string :: "cstr option \<Rightarrow> cstr option \<Rightarrow> nat \<Rightarrow> int option" where
  "dtrace_match_string s p depth =
     (case s of
        None \<Rightarrow> Some 0
      | Some s \<Rightarrow> (case p of None \<Rightarrow> None | Some p \<Rightarrow> Some (if dtrace_strcmp s p = 0 then 1 else 0)))"

definition dtrace_match_nul :: "cstr option \<Rightarrow> cstr option \<Rightarrow> nat \<Rightarrow> int" where
  "dtrace_match_nul s p depth = 1"

definition dtrace_match_nonzero :: "cstr option \<Rightarrow> cstr option \<Rightarrow> nat \<Rightarrow> int" where
  "dtrace_match_nonzero s p depth = (if s \<noteq> None \<and> s \<noteq> Some [] then 1 else 0)"

text \<open>The match functions a probe key points to, and the call through the pointer.\<close>

datatype dtrace_probekey_f = match_glob | match_string | match_nul | match_nonzero

definition probekey_call :: "dtrace_probekey_f \<Rightarrow> cstr option \<Rightarrow> cstr option \<Rightarrow> int option" where
  "probekey_call f s p =
     (case f of
        match_glob \<Rightarrow> Some (dtrace_match_glob s p 0)
      | match_string \<Rightarrow> dtrace_match_string s p 0
      | match_nul \<Rightarrow> Some (dtrace_match_nul s p 0)
      | match_nonzero \<Rightarrow> Some (dtrace_match_nonzero s p 0))"

definition glob_char :: "u8 \<Rightarrow> bool" where
  "glob_char c \<longleftrightarrow> c = chr_lbrack \<or> c = chr_quest \<or> c = chr_star \<or> c = chr_bslash"

definition dtrace_probekey_func :: "cstr option \<Rightarrow> dtrace_probekey_f" where
  "dtrace_probekey_func p =
     (case p of
        None \<Rightarrow> match_nul
      | Some p \<Rightarrow> if p = [] then match_nul else if list_ex glob_char p then match_glob else match_string)"

definition DTRACE_ISALPHA :: "u8 \<Rightarrow> bool" where
  "DTRACE_ISALPHA c \<longleftrightarrow> char_between 0x61 c 0x7A \<or> char_between 0x41 c 0x5A"

definition badname_char :: "u8 \<Rightarrow> bool" where
  "badname_char c \<longleftrightarrow> \<not> DTRACE_ISALPHA c \<and> \<not> char_between 0x30 c 0x39 \<and>
     c \<noteq> chr_dash \<and> c \<noteq> 0x5F \<and> c \<noteq> 0x2E \<and> c \<noteq> 0x60"

definition dtrace_badname :: "cstr option \<Rightarrow> bool" where
  "dtrace_badname s =
     (case s of
        None \<Rightarrow> False
      | Some [] \<Rightarrow> False
      | Some (c # s) \<Rightarrow>
          (\<not> DTRACE_ISALPHA c \<and> c \<noteq> chr_dash \<and> c \<noteq> 0x5F \<and> c \<noteq> 0x2E) \<or> list_ex badname_char s)"

section \<open>Reference semantics of patterns\<close>

text \<open>
  A pattern is a sequence of tokens. The elements of a bracket expression are the intervals of
  characters it lists; the end of a range is an element of its own.
\<close>

datatype glob_tok = Lit u8 | One | Many | Class bool "(u8 \<times> u8) list"

text \<open>The step of the bracket loop and of its parser.\<close>

definition class_range :: "u8 \<Rightarrow> u8 \<Rightarrow> cstr \<Rightarrow> bool" where
  "class_range lc c p \<longleftrightarrow> c = chr_dash \<and> lc \<noteq> 0 \<and> \<not> (p \<noteq> [] \<and> hd p = chr_rbrack)"

definition class_char :: "u8 \<Rightarrow> u8 \<Rightarrow> cstr \<Rightarrow> (u8 \<times> cstr) option" where
  "class_char lc c p =
     (if class_range lc c p then (case p of [] \<Rightarrow> None | c # p \<Rightarrow> unescape c p) else unescape c p)"

lemma class_char_length: "class_char lc c p = Some (c', p') \<Longrightarrow> length p' \<le> length p"
  by (auto simp: class_char_def split: if_splits list.splits dest!: unescape_length)

function parse_class :: "(u8 \<times> u8) list \<Rightarrow> u8 \<Rightarrow> u8 \<Rightarrow> cstr \<Rightarrow> ((u8 \<times> u8) list \<times> cstr) option" where
  "parse_class its lc c p =
     (case class_char lc c p of
        None \<Rightarrow> None
      | Some (c', p') \<Rightarrow>
          (let its = (if class_range lc c p then [(lc, c')] else []) @ [(c', c')] @ its in
           case p' of
             [] \<Rightarrow> None
           | c2 # p2 \<Rightarrow> if c2 = chr_rbrack then Some (its, p2) else parse_class its c' c2 p2))"
  by pat_completeness auto
termination
  by (relation "measure (\<lambda>(its, lc, c, p). length p)") (auto dest!: class_char_length)

declare parse_class.simps [simp del]

definition parse_bracket :: "cstr \<Rightarrow> (bool \<times> (u8 \<times> u8) list \<times> cstr) option" where
  "parse_bracket p =
     (let neg = (p \<noteq> [] \<and> hd p = chr_bang) in
      case (if neg then tl p else p) of
        [] \<Rightarrow> None
      | c # p \<Rightarrow> map_option (\<lambda>(its, p). (neg, its, p)) (parse_class [] 0 c p))"


lemma parse_class_length: "parse_class its lc c p = Some (its', p') \<Longrightarrow> length p' < length p"
proof (induction its lc c p rule: parse_class.induct)
  case (1 its lc c p)
  then show ?case
    by (subst (asm) (2) parse_class.simps)
      (fastforce simp: Let_def split: option.splits list.splits if_splits dest: class_char_length)
qed

lemma parse_bracket_length: "parse_bracket p = Some (neg, its, p') \<Longrightarrow> length p' < length p"
  by (cases p) (auto simp: parse_bracket_def Let_def split: if_splits list.splits dest!: parse_class_length)

function glob_parse :: "cstr \<Rightarrow> glob_tok list option" where
  "glob_parse p =
     (case p of
        [] \<Rightarrow> Some []
      | c # p \<Rightarrow>
          if c = chr_lbrack then
            (case parse_bracket p of
               None \<Rightarrow> None
             | Some (neg, its, p) \<Rightarrow> map_option ((#) (Class neg its)) (glob_parse p))
          else if c = chr_star then map_option ((#) Many) (glob_parse p)
          else if c = chr_quest then map_option ((#) One) (glob_parse p)
          else
            (case unescape c p of
               None \<Rightarrow> None
             | Some (c, p) \<Rightarrow> map_option ((#) (Lit c)) (glob_parse p)))"
  by pat_completeness auto
termination
  by (relation "measure length") (auto dest!: parse_bracket_length unescape_length)

declare glob_parse.simps [simp del]

definition in_class :: "(u8 \<times> u8) list \<Rightarrow> u8 \<Rightarrow> bool" where
  "in_class its x = list_ex (\<lambda>(a, b). char_between a x b) its"

fun glob_matches :: "glob_tok list \<Rightarrow> cstr \<Rightarrow> bool" where
  "glob_matches [] s = (s = [])"
| "glob_matches (Lit c # ts) s = (case s of [] \<Rightarrow> False | x # s \<Rightarrow> x = c \<and> glob_matches ts s)"
| "glob_matches (One # ts) s = (case s of [] \<Rightarrow> False | x # s \<Rightarrow> glob_matches ts s)"
| "glob_matches (Class neg its # ts) s =
     (case s of [] \<Rightarrow> False | x # s \<Rightarrow> in_class its x \<noteq> neg \<and> glob_matches ts s)"
| "glob_matches (Many # ts) s = (\<exists>k\<in>{..length s}. glob_matches ts (drop k s))"

section \<open>Lemmas\<close>

lemma char_between_refl: "char_between c x c \<longleftrightarrow> x = c"
  by (auto simp: char_between_def) (metis signed_word_eqI)

lemma in_class_simps [simp]:
  "\<not> in_class [] x" "in_class ((a, b) # its) x \<longleftrightarrow> char_between a x b \<or> in_class its x"
  by (simp_all add: in_class_def)

lemma parse_class_mono: "parse_class its lc c p = Some (its', p') \<Longrightarrow> in_class its x \<Longrightarrow> in_class its' x"
proof (induction its lc c p rule: parse_class.induct)
  case (1 its lc c p)
  then show ?case
    by (subst (asm) (2) parse_class.simps)
      (fastforce simp: Let_def split: option.splits list.splits if_splits)
qed

lemma class_elem_char:
  "class_elem nf x ok lc c p =
     (case class_char lc c p of
        None \<Rightarrow> None
      | Some (c', p') \<Rightarrow>
          (if class_range lc c p then map_option (\<lambda>ok. (ok, c', p')) (class_test nf ok (char_between lc x c'))
           else Some (ok, c', p')))"
  by (cases p) (auto simp: class_elem_def class_range_def class_char_def Let_def class_test_def split: option.splits)

lemma glob_class_parse:
  "glob_class False x (in_class its x) lc c p =
     map_option (\<lambda>(its, p). (in_class its x, p)) (parse_class its lc c p)"
proof (induction "length p" arbitrary: its lc c p rule: less_induct)
  case less
  show ?case
  proof (cases "class_char lc c p")
    case None
    then show ?thesis by (subst glob_class.simps, subst parse_class.simps) (simp add: class_elem_char)
  next
    case (Some y)
    obtain c' p' where y: "y = (c', p')" by force
    let ?its = "(if class_range lc c p then [(lc, c')] else []) @ [(c', c')] @ its"
    note s = Some [unfolded y]
    have eq: "glob_class False x (in_class its x) lc c p =
        (case p' of [] \<Rightarrow> None
         | c2 # p2 \<Rightarrow> if c2 = chr_rbrack then Some (in_class ?its x, p2) else glob_class False x (in_class ?its x) c' c2 p2)"
      by (subst glob_class.simps)
        (auto simp: class_elem_char s class_test_def char_between_refl ac_simps split: list.split)
    show ?thesis
    proof (cases p')
      case (Cons c2 p2)
      then have "length p2 < length p" using class_char_length [OF s] by simp
      then show ?thesis unfolding eq by (subst parse_class.simps) (simp add: s Cons less)
    qed (unfold eq, subst parse_class.simps, simp add: s)
  qed
qed

lemma glob_class_parse_not:
  "\<not> in_class its x \<Longrightarrow>
   glob_class True x ok lc c p =
     (case parse_class its lc c p of
        None \<Rightarrow> None
      | Some (its', p') \<Rightarrow> if in_class its' x then None else Some (True, p'))"
proof (induction "length p" arbitrary: its lc c p ok rule: less_induct)
  case less
  show ?case
  proof (cases "class_char lc c p")
    case None
    then show ?thesis by (subst glob_class.simps, subst parse_class.simps) (simp add: class_elem_char)
  next
    case (Some y)
    obtain c' p' where y: "y = (c', p')" by force
    let ?its = "(if class_range lc c p then [(lc, c')] else []) @ [(c', c')] @ its"
    note s = Some [unfolded y]
    have eq: "glob_class True x ok lc c p =
        (if in_class ?its x then None
         else case p' of [] \<Rightarrow> None
         | c2 # p2 \<Rightarrow> if c2 = chr_rbrack then Some (True, p2) else glob_class True x True c' c2 p2)"
      using less.prems
      by (subst glob_class.simps) (auto simp: class_elem_char s class_test_def char_between_refl split: list.split)
    show ?thesis
    proof (cases p')
      case (Cons c2 p2)
      then have "length p2 < length p" using class_char_length [OF s] by simp
      then show ?thesis
        unfolding eq using less.hyps [of p2 ?its True c' c2] parse_class_mono [of ?its c' c2 p2 _ _ x]
        by (subst parse_class.simps) (auto simp: s Cons split: option.split)
    qed (unfold eq, subst parse_class.simps, simp add: s)
  qed
qed

lemma glob_bracket_parse:
  "glob_bracket x p =
     (case parse_bracket p of
        None \<Rightarrow> None
      | Some (neg, its, p') \<Rightarrow> if neg then (if in_class its x then None else Some (True, p')) else Some (in_class its x, p'))"
  using glob_class_parse [of x "[]"] glob_class_parse_not [of "[]" x]
  by (auto simp: glob_bracket_def parse_bracket_def Let_def split: list.split option.split)


definition glob_ref :: "cstr \<Rightarrow> cstr \<Rightarrow> bool" where
  "glob_ref s p = (case glob_parse p of None \<Rightarrow> False | Some ts \<Rightarrow> glob_matches ts s)"

lemma glob_ref_simps:
  "glob_ref s [] \<longleftrightarrow> s = []"
  "glob_ref [] (chr_lbrack # p) = False"
  "glob_ref (x # s) (chr_lbrack # p) =
     (case glob_bracket x p of None \<Rightarrow> False | Some (ok, p') \<Rightarrow> ok \<and> glob_ref s p')"
  "glob_ref s (chr_quest # p) = (case s of [] \<Rightarrow> False | x # s \<Rightarrow> glob_ref s p)"
  "glob_ref s (chr_star # p) = (\<exists>k\<in>{..length s}. glob_ref (drop k s) p)"
  "c \<noteq> chr_lbrack \<Longrightarrow> c \<noteq> chr_star \<Longrightarrow> c \<noteq> chr_quest \<Longrightarrow>
   glob_ref s (c # p) =
     (case unescape c p of None \<Rightarrow> False | Some (c, p) \<Rightarrow> (case s of [] \<Rightarrow> False | x # s \<Rightarrow> x = c \<and> glob_ref s p))"
  by (auto simp: glob_ref_def glob_parse.simps [of "c # p" for c] glob_parse.simps [of "[]"] glob_bracket_parse
      split: option.splits list.splits if_splits)

lemma glob_ref_star_star: "glob_ref s (chr_star # chr_star # p) \<longleftrightarrow> glob_ref s (chr_star # p)"
proof -
  have "(\<exists>k\<le>n. \<exists>j\<le>n - k. P (j + k)) \<longleftrightarrow> (\<exists>k\<le>n. P k)" for n :: nat and P
  proof
    assume "\<exists>k\<le>n. \<exists>j\<le>n - k. P (j + k)"
    then obtain k j where "k \<le> n" "j \<le> n - k" "P (j + k)" by blast
    then show "\<exists>k\<le>n. P k" by (intro exI [of _ "j + k"]) simp
  next
    assume "\<exists>k\<le>n. P k"
    then obtain k where "k \<le> n" "P k" by blast
    then show "\<exists>k\<le>n. \<exists>j\<le>n - k. P (j + k)" by (intro exI [of _ k]) (auto intro: exI [of _ 0])
  qed
  from this [of "length s" "\<lambda>k. glob_ref (drop k s) p"] show ?thesis
    by (simp add: glob_ref_simps(5) Bex_def)
qed

lemma glob_ref_star_dropWhile:
  "glob_ref s (chr_star # dropWhile (\<lambda>c. c = chr_star) p) \<longleftrightarrow> glob_ref s (chr_star # p)"
  by (induction p) (auto simp: glob_ref_star_star)

lemma glob_ref_star_only: "glob_ref s [chr_star]"
  by (auto simp: glob_ref_simps intro!: bexI [of _ "length s"])

lemma glob_ref_nonempty: "p \<noteq> [] \<Longrightarrow> hd p \<noteq> chr_star \<Longrightarrow> \<not> glob_ref [] p"
proof (cases p)
  case (Cons c p')
  then show "hd p \<noteq> chr_star \<Longrightarrow> ?thesis"
    by (cases "c = chr_lbrack"; cases "c = chr_quest") (auto simp: glob_ref_simps split: option.splits)
qed simp

abbreviation (input) stars :: "cstr \<Rightarrow> nat" where "stars p \<equiv> length (filter (\<lambda>c. c = chr_star) p)"

lemma stars_unescape: "unescape c p = Some (c', p') \<Longrightarrow> stars p' \<le> stars p"
  by (cases p) (auto simp: unescape_def split: if_splits)


lemma stars_class_elem: "class_elem nf x ok lc c p = Some (ok', c', p') \<Longrightarrow> stars p' \<le> stars p"
  by (cases p) (auto simp: class_elem_def dest!: stars_unescape elim!: do_elims split: if_split_asm)

lemma stars_glob_class: "glob_class nf x ok lc c p = Some (ok', p') \<Longrightarrow> stars p' \<le> stars p"
proof (induction nf x ok lc c p rule: glob_class.induct)
  case (1 nf x ok lc c p)
  obtain ok2 c2 p2 where e: "class_elem nf x ok lc c p = Some (ok2, c2, p2)"
    using "1.prems" by (subst (asm) glob_class.simps) (auto split: option.splits)
  have "stars p' \<le> stars p2"
    using "1.prems" e "1.IH" [OF e refl]
    by (subst (asm) glob_class.simps) (fastforce simp: Let_def split: option.splits list.splits if_splits)
  then show ?case using stars_class_elem [OF e] by simp
qed

lemma stars_glob_bracket: "glob_bracket x p = Some (ok, p') \<Longrightarrow> stars p' \<le> stars p"
  by (cases p) (auto simp: glob_bracket_def Let_def split: if_splits list.splits dest!: stars_glob_class)

lemma stars_dropWhile: "stars (dropWhile (\<lambda>c. c = chr_star) p) \<le> stars p"
  by (induction p) auto

lemma ex_drop_Cons:
  "(\<exists>k\<in>{..length (x # s)}. P (drop k (x # s))) \<longleftrightarrow> P (x # s) \<or> (\<exists>k\<in>{..length s}. P (drop k s))"
  by (simp add: atMost_Suc_eq_insert_0)

lemma glob_star_correct:
  assumes "\<And>s. glob depth s p = of_bool (glob_ref s p)" "p \<noteq> []" "hd p \<noteq> chr_star"
  shows "glob_star depth s p = of_bool (glob_ref s (chr_star # p))"
proof (induction s)
  case Nil
  then show ?case using glob_ref_nonempty [OF assms(2,3)] by (simp add: glob_star.simps glob_ref_simps(5))
next
  case (Cons x s)
  then show ?case
    using ex_drop_Cons [of x s "\<lambda>s. glob_ref s p"]
    by (subst glob_star.simps) (simp add: assms(1) glob_ref_simps(5) Let_def)
qed

lemma glob_correct: "depth + stars p \<le> 8 \<Longrightarrow> glob depth s p = of_bool (glob_ref s p)"
proof (induction "length p" arbitrary: depth s p rule: less_induct)
  case less
  show ?case
  proof (cases p)
    case Nil
    then show ?thesis using less.prems by (subst glob.simps) (simp add: glob_ref_simps)
  next
    case (Cons c p1)
    have IH: "glob depth s p' = of_bool (glob_ref s p')" if "length p' \<le> length p1" "stars p' \<le> stars p1" for p' s
      using that less.prems Cons by (intro less.hyps) (auto split: if_splits)
    have br: "glob depth s p' = of_bool (glob_ref s p')" if "glob_bracket x p1 = Some (ok, p')" for x ok p' s
      using glob_bracket_length [OF that] stars_glob_bracket [OF that] by (intro IH) simp_all
    have un: "glob depth s p' = of_bool (glob_ref s p')" if "unescape c p1 = Some (c', p')" for c' p' s
      using unescape_length [OF that] stars_unescape [OF that] by (intro IH) simp_all
    have d: "\<not> 8 < depth" using less.prems by simp
    consider "c = chr_lbrack" | "c = chr_star" | "c = chr_quest" | "c \<noteq> chr_lbrack" "c \<noteq> chr_star" "c \<noteq> chr_quest"
      by blast
    then show ?thesis
    proof cases
      case 1
      show ?thesis
        by (cases s; cases "glob_bracket (hd s) p1")
          (auto simp: glob.simps [of depth _ "chr_lbrack # p1"] Cons 1 d glob_ref_simps br split: if_split_asm)
    next
      case 2
      let ?p = "dropWhile (\<lambda>c. c = chr_star) p1"
      have l: "length ?p \<le> length p1" "stars ?p \<le> stars p1" by (simp_all add: length_dropWhile_le stars_dropWhile)
      have "glob (Suc depth) s ?p = of_bool (glob_ref s ?p)" for s
        using l less.prems Cons 2 by (intro less.hyps) auto
      then have "?p \<noteq> [] \<Longrightarrow> glob_star (Suc depth) s ?p = of_bool (glob_ref s (chr_star # ?p))"
        using hd_dropWhile [of "\<lambda>c. c = chr_star" p1] by (intro glob_star_correct) (auto simp: dropWhile_eq_Nil_conv)
      then show ?thesis
        using 2 glob_ref_star_dropWhile [of s p1] glob_ref_star_only [of s]
        by (cases "?p = []") (auto simp: glob.simps [of depth _ "chr_star # p1"] Cons d Let_def)
    next
      case 3
      then show ?thesis
        using IH [of p1] by (cases s) (simp_all add: glob.simps [of depth _ "chr_quest # p1"] Cons d glob_ref_simps(4))
    next
      case 4
      then show ?thesis
        by (cases s; cases "unescape c p1")
          (auto simp: glob.simps [of depth _ "c # p1"] Cons d glob_ref_simps(6) un split: if_split_asm)
    qed
  qed
qed


lemma glob_ref_literal: "\<not> list_ex glob_char p \<Longrightarrow> glob_ref s p \<longleftrightarrow> s = p"
proof (induction p arbitrary: s)
  case (Cons c p)
  then show ?case by (cases s) (auto simp: glob_char_def glob_ref_simps(6) unescape_def)
qed (simp add: glob_ref_simps)

lemma dtrace_strcmp_eq_0: "0 \<notin> set s \<Longrightarrow> 0 \<notin> set p \<Longrightarrow> dtrace_strcmp s p = 0 \<longleftrightarrow> s = p"
proof (induction s p rule: dtrace_strcmp.induct)
  case (4 x xs y ys)
  have "sint y = sint x \<longleftrightarrow> x = y" by (metis signed_word_eqI)
  then show ?case using 4 by auto
qed (auto simp: signed_eq_0_iff)

section \<open>Properties\<close>

text \<open>
  \<^bold>\<open>C13.\<close> Matching one element of a probe description is glob matching: for every pattern with at most
  \<^verbatim>\<open>DTRACE_PROBEKEY_MAXDEPTH\<close> stars, the function \<^verbatim>\<open>dtrace_probekey_func\<close> selects for it (always
  match, compare, or the depth-limited glob matcher) returns 1 if the parsed pattern matches the whole
  string and 0 otherwise, malformed patterns included; the recursion limit is never reached. The empty
  pattern matches everything.
\<close>

theorem dtrace_probekey_func_correct:
  assumes "length (filter (\<lambda>c. c = chr_star) p) \<le> DTRACE_PROBEKEY_MAXDEPTH" "0 \<notin> set s" "0 \<notin> set p"
  shows "probekey_call (dtrace_probekey_func (Some p)) (Some s) (Some p) =
    Some (if p = [] then 1
          else case glob_parse p of None \<Rightarrow> 0 | Some ts \<Rightarrow> if glob_matches ts s then 1 else 0)"
proof -
  have ref: "(case glob_parse p of None \<Rightarrow> 0 | Some ts \<Rightarrow> if glob_matches ts s then 1 else 0) = (of_bool (glob_ref s p) :: int)"
    by (simp add: glob_ref_def split: option.split)
  show ?thesis
    unfolding ref using assms glob_ref_literal [of p s] dtrace_strcmp_eq_0 [of s p]
    by (simp add: probekey_call_def dtrace_probekey_func_def dtrace_match_nul_def dtrace_match_string_def
        dtrace_match_glob_def glob_correct)
qed

text \<open>\<^verbatim>\<open>a*[b-d]?\<close> on \<^verbatim>\<open>axxcz\<close>.\<close>

theorem dtrace_probekey_func_correct_witness:
  "probekey_call (dtrace_probekey_func (Some [0x61, 0x2A, 0x5B, 0x62, 0x2D, 0x64, 0x5D, 0x3F]))
     (Some [0x61, 0x78, 0x78, 0x63, 0x7A]) (Some [0x61, 0x2A, 0x5B, 0x62, 0x2D, 0x64, 0x5D, 0x3F]) = Some 1"
proof -
  let ?p = "[0x61, 0x2A, 0x5B, 0x62, 0x2D, 0x64, 0x5D, 0x3F] :: cstr" and ?s = "[0x61, 0x78, 0x78, 0x63, 0x7A] :: cstr"
  have "glob_parse ?p = Some [Lit 0x61, Many, Class False [(0x62, 0x64), (0x64, 0x64), (0x62, 0x62)], One]"
    by code_simp
  moreover have "glob_matches [Lit 0x61, Many, Class False [(0x62, 0x64), (0x64, 0x64), (0x62, 0x62)], One] ?s"
    by code_simp
  ultimately show ?thesis
    using dtrace_probekey_func_correct [of ?p ?s] by simp
qed

end
