(* ===== verification/DT_Hash.thy ===== *)
theory DT_Hash
  imports DT_Prelude "HOL-Library.Multiset"
begin

text \<open>
  The probe hash tables (\<^verbatim>\<open>driver/dtrace.c\<close>, \<open>DTrace Probe Hashing Functions\<close>). A table hashes probes
  by one of their strings. A bucket holds all probes with the same string on a doubly linked list whose
  links are fields of the probes, at the offsets \<^verbatim>\<open>dth_nextoffs\<close> and \<^verbatim>\<open>dth_prevoffs\<close>: in the model
  each table has its own link maps. The string of a probe (the field at \<^verbatim>\<open>dth_stroffs\<close>) is an argument
  \<open>str\<close> of the operations, and a template probe is represented by its string.

  A failed assertion is \<open>None\<close>. The bucket of \<^verbatim>\<open>dthb_next\<close> links is a list; \<^verbatim>\<open>dthb_chain\<close> is
  NULL only between the allocation of a bucket and its first insertion, so it is a plain reference.

  The size, the mask and the counters are of type \<^verbatim>\<open>int\<close> in the source and unbounded here. Every insertion
  follows the allocation of an identifier below \<^verbatim>\<open>INT_MAX\<close> that is never used again, so no counter exceeds
  \<^verbatim>\<open>INT_MAX\<close>; a table is doubled only while its size is below half its number of buckets, so the size stays
  at or below \<open>2 ^ 30\<close>.
\<close>

type_synonym probe_ref = nat

record dtrace_hashbucket =
  dthb_chain :: probe_ref
  dthb_len :: int

record dtrace_hash =
  dth_tab :: "dtrace_hashbucket list list"
  dth_size :: nat
  dth_mask :: nat
  dth_nbuckets :: nat
  dth_next :: "probe_ref \<Rightarrow> probe_ref option"
  dth_prev :: "probe_ref \<Rightarrow> probe_ref option"

definition hash_step :: "u32 \<Rightarrow> u8 \<Rightarrow> u32" where
  "hash_step hval c =
     (let hval = push_bit 4 hval + scast c;
          g = hval AND 0xF0000000;
          hval = (if g \<noteq> 0 then hval XOR drop_bit 24 g else hval)
      in hval AND NOT g)"

definition dtrace_hash_str :: "cstr \<Rightarrow> u32" where
  "dtrace_hash_str p = foldl hash_step 0 p"

definition hash_ndx :: "cstr \<Rightarrow> nat \<Rightarrow> nat" where
  "hash_ndx s m = unat (dtrace_hash_str s) AND m"

definition dtrace_hash_create :: dtrace_hash where
  "dtrace_hash_create =
     \<lparr>dth_tab = [[]], dth_size = 1, dth_mask = 0, dth_nbuckets = 0, dth_next = \<lambda>p. None, dth_prev = \<lambda>p. None\<rparr>"

text \<open>The position of the bucket for a string on a hash chain: the loops that test \<^verbatim>\<open>DTRACE_HASHEQ\<close>.\<close>

fun bucket_find :: "(probe_ref \<Rightarrow> cstr) \<Rightarrow> dtrace_hashbucket list \<Rightarrow> cstr \<Rightarrow> nat option" where
  "bucket_find str [] s = None"
| "bucket_find str (b # bs) s = (if str (dthb_chain b) = s then Some 0 else map_option Suc (bucket_find str bs s))"

definition resize_insert ::
  "(probe_ref \<Rightarrow> cstr) \<Rightarrow> nat \<Rightarrow> dtrace_hashbucket list list \<Rightarrow> dtrace_hashbucket \<Rightarrow> dtrace_hashbucket list list" where
  "resize_insert str new_mask tab b =
     (let ndx = hash_ndx (str (dthb_chain b)) new_mask in tab[ndx := b # tab ! ndx])"

definition dtrace_hash_resize :: "(probe_ref \<Rightarrow> cstr) \<Rightarrow> dtrace_hash \<Rightarrow> dtrace_hash option" where
  "dtrace_hash_resize str h =
     (let new_size = dth_size h * 2; new_mask = new_size - 1 in
      if new_size AND new_mask \<noteq> 0 then None
      else Some (h\<lparr>dth_tab := foldl (resize_insert str new_mask) (replicate new_size []) (concat (dth_tab h)),
                   dth_size := new_size, dth_mask := new_mask\<rparr>))"

definition hash_push :: "probe_ref \<Rightarrow> nat \<Rightarrow> nat \<Rightarrow> dtrace_hash \<Rightarrow> dtrace_hash option" where
  "hash_push new ndx i h =
     (let bs = dth_tab h ! ndx; b = bs ! i; c = dthb_chain b in
      if dth_next h new \<noteq> None \<or> dth_prev h new \<noteq> None \<or> dth_prev h c \<noteq> None then None
      else Some (h\<lparr>dth_next := (dth_next h)(new := Some c), dth_prev := (dth_prev h)(c := Some new),
        dth_tab := (dth_tab h)[ndx := bs[i := b\<lparr>dthb_chain := new, dthb_len := dthb_len b + 1\<rparr>]]\<rparr>))"

definition hash_new_bucket :: "probe_ref \<Rightarrow> nat \<Rightarrow> dtrace_hash \<Rightarrow> dtrace_hash option" where
  "hash_new_bucket new ndx h =
     (if dth_next h new \<noteq> None \<or> dth_prev h new \<noteq> None then None
      else Some (h\<lparr>dth_next := (dth_next h)(new := None),
        dth_tab := (dth_tab h)[ndx := \<lparr>dthb_chain = new, dthb_len = 1\<rparr> # dth_tab h ! ndx],
        dth_nbuckets := dth_nbuckets h + 1\<rparr>))"

partial_function (option) dtrace_hash_add ::
  "(probe_ref \<Rightarrow> cstr) \<Rightarrow> probe_ref \<Rightarrow> dtrace_hash \<Rightarrow> dtrace_hash option" where
  "dtrace_hash_add str new h =
     (let ndx = hash_ndx (str new) (dth_mask h) in
      case bucket_find str (dth_tab h ! ndx) (str new) of
        Some i \<Rightarrow> hash_push new ndx i h
      | None \<Rightarrow>
          if dth_nbuckets h div 2 > dth_size h
          then Option.bind (dtrace_hash_resize str h) (dtrace_hash_add str new)
          else hash_new_bucket new ndx h)"

definition dtrace_hash_lookup :: "(probe_ref \<Rightarrow> cstr) \<Rightarrow> dtrace_hash \<Rightarrow> cstr \<Rightarrow> probe_ref option" where
  "dtrace_hash_lookup str h s =
     (let bs = dth_tab h ! hash_ndx s (dth_mask h) in
      map_option (\<lambda>i. dthb_chain (bs ! i)) (bucket_find str bs s))"

definition dtrace_hash_collisions :: "(probe_ref \<Rightarrow> cstr) \<Rightarrow> dtrace_hash \<Rightarrow> cstr \<Rightarrow> int" where
  "dtrace_hash_collisions str h s =
     (let bs = dth_tab h ! hash_ndx s (dth_mask h) in
      case bucket_find str bs s of None \<Rightarrow> 0 | Some i \<Rightarrow> dthb_len (bs ! i))"

definition dtrace_hash_remove :: "(probe_ref \<Rightarrow> cstr) \<Rightarrow> probe_ref \<Rightarrow> dtrace_hash \<Rightarrow> dtrace_hash option" where
  "dtrace_hash_remove str probe h =
     (let ndx = hash_ndx (str probe) (dth_mask h);
          bs = dth_tab h ! ndx;
          prevp = dth_prev h probe;
          nextp = dth_next h probe
      in case bucket_find str bs (str probe) of
           None \<Rightarrow> None
         | Some i \<Rightarrow>
             (case (prevp, nextp) of
                (None, None) \<Rightarrow>
                  if dthb_chain (bs ! i) \<noteq> probe \<or> dth_nbuckets h = 0 then None
                  else Some (h\<lparr>dth_tab := (dth_tab h)[ndx := take i bs @ drop (Suc i) bs],
                         dth_nbuckets := dth_nbuckets h - 1\<rparr>)
              | (None, Some q) \<Rightarrow>
                  Some (h\<lparr>dth_tab := (dth_tab h)[ndx := bs[i := (bs ! i)\<lparr>dthb_chain := q\<rparr>]],
                    dth_prev := (dth_prev h)(q := prevp)\<rparr>)
              | (Some p, _) \<Rightarrow>
                  Some (h\<lparr>dth_next := (dth_next h)(p := nextp),
                    dth_prev := (case nextp of None \<Rightarrow> dth_prev h | Some q \<Rightarrow> (dth_prev h)(q := prevp))\<rparr>)))"

section \<open>Chains\<close>

text \<open>The links of the probes \<open>ps\<close> form a doubly linked list with predecessor \<open>p\<close>.\<close>

fun chain :: "(probe_ref \<Rightarrow> probe_ref option) \<Rightarrow> (probe_ref \<Rightarrow> probe_ref option) \<Rightarrow> probe_ref option \<Rightarrow> probe_ref list \<Rightarrow> bool" where
  "chain nx pv p [] = True"
| "chain nx pv p (x # xs) \<longleftrightarrow>
     pv x = p \<and> nx x = (case xs of [] \<Rightarrow> None | y # ys \<Rightarrow> Some y) \<and> chain nx pv (Some x) xs"

lemma chain_frame:
  "(\<And>x. x \<in> set ps \<Longrightarrow> nx' x = nx x \<and> pv' x = pv x) \<Longrightarrow> chain nx' pv' p ps \<longleftrightarrow> chain nx pv p ps"
  by (induction ps arbitrary: p) auto

lemma chain_push:
  assumes "chain nx pv None (c # ps)" "new \<notin> set (c # ps)" "pv new = None" "distinct (c # ps)"
  shows "chain (nx(new := Some c)) (pv(c := Some new)) None (new # c # ps)"
proof -
  have "chain (nx(new := Some c)) (pv(c := Some new)) (Some c) ps = chain nx pv (Some c) ps"
    using assms by (intro chain_frame) auto
  then show ?thesis using assms by auto
qed

lemma chain_mid:
  "chain nx pv p (xs @ y # ys) \<Longrightarrow>
   pv y = (if xs = [] then p else Some (last xs)) \<and> nx y = (case ys of [] \<Rightarrow> None | z # zs \<Rightarrow> Some z)"
proof (induction xs arbitrary: p)
  case (Cons x xs)
  then have "chain nx pv (Some x) (xs @ y # ys)" by simp
  from Cons.IH [OF this] show ?case by simp
qed simp

definition unlink_next :: "probe_ref list \<Rightarrow> probe_ref \<Rightarrow> (probe_ref \<Rightarrow> probe_ref option) \<Rightarrow> probe_ref \<Rightarrow> probe_ref option" where
  "unlink_next xs y nx = (if xs = [] then nx else nx(last xs := nx y))"

definition unlink_prev :: "probe_ref \<Rightarrow> probe_ref list \<Rightarrow> (probe_ref \<Rightarrow> probe_ref option) \<Rightarrow> probe_ref \<Rightarrow> probe_ref option" where
  "unlink_prev y ys pv = (if ys = [] then pv else pv(hd ys := pv y))"

lemma unlink_other:
  "x \<notin> set xs \<Longrightarrow> unlink_next xs y nx x = nx x" "x \<notin> set ys \<Longrightarrow> unlink_prev y ys pv x = pv x"
  by (auto simp: unlink_next_def unlink_prev_def)

lemma chain_remove:
  assumes "chain nx pv p (xs @ y # ys)" "distinct (xs @ y # ys)"
  shows "chain (unlink_next xs y nx) (unlink_prev y ys pv) p (xs @ ys)"
  using assms
proof (induction xs arbitrary: p)
  case Nil
  show ?case
  proof (cases ys)
    case (Cons z zs)
    have "chain nx (unlink_prev y ys pv) (Some z) zs = chain nx pv (Some z) zs"
      using Nil.prems(2) Cons by (intro chain_frame) (auto simp: unlink_prev_def)
    then show ?thesis using Nil Cons by (simp add: unlink_next_def) (simp add: unlink_prev_def)
  qed simp
next
  case (Cons x xs)
  have x: "x \<notin> set ys" "x \<notin> set xs" "x \<noteq> y" using Cons.prems(2) by auto
  have IH: "chain (unlink_next xs y nx) (unlink_prev y ys pv) (Some x) (xs @ ys)"
    using Cons.prems by (intro Cons.IH) auto
  have "chain (unlink_next (x # xs) y nx) (unlink_prev y ys pv) (Some x) (xs @ ys)"
    using IH x
    by (subst chain_frame [where nx = "unlink_next xs y nx" and pv = "unlink_prev y ys pv"])
      (auto simp: unlink_next_def)
  moreover have "unlink_next (x # xs) y nx x = (case xs @ ys of [] \<Rightarrow> None | z # zs \<Rightarrow> Some z)"
  proof (cases xs)
    case Nil
    then show ?thesis
      using conjunct2 [OF chain_mid [OF Cons.prems(1)]] by (simp add: unlink_next_def)
  next
    case (Cons w ws)
    have "nx x = Some w" using \<open>chain nx pv p ((x # xs) @ y # ys)\<close> Cons by simp
    moreover have "x \<noteq> last (w # ws)" using x(2) Cons last_in_set [of "w # ws"] by (auto simp del: last.simps)
    ultimately show ?thesis using Cons by (simp add: unlink_next_def)
  qed
  moreover have "pv x = p" using Cons.prems(1) by simp
  ultimately show ?case using x(1) by (simp add: unlink_other)
qed

lemma mset_concat_update:
  "i < length xss \<Longrightarrow> mset (concat (xss[i := ys])) + mset (xss ! i) = mset (concat xss) + mset ys"
proof (induction xss arbitrary: i)
  case (Cons xs xss)
  show ?case
  proof (cases i)
    case (Suc j)
    then have "mset (concat (xss[j := ys])) + mset (xss ! j) = mset (concat xss) + mset ys"
      using Cons by simp
    then show ?thesis using Suc by (simp add: ac_simps)
  qed (simp add: ac_simps)
qed simp

section \<open>Invariant and abstraction\<close>

text \<open>
  \<open>hash_inv str h F\<close>: the table \<open>h\<close> is well-formed and represents \<open>F\<close>, which gives for every string the
  probes that have it, the latest first. The length of a bucket is only an upper bound:
  \<^verbatim>\<open>dtrace_hash_remove\<close> does not decrement it.
\<close>

definition bucket_inv :: "(probe_ref \<Rightarrow> cstr) \<Rightarrow> dtrace_hash \<Rightarrow> (cstr \<Rightarrow> probe_ref list) \<Rightarrow> nat \<Rightarrow> dtrace_hashbucket \<Rightarrow> bool" where
  "bucket_inv str h F i b \<longleftrightarrow>
     (let ps = F (str (dthb_chain b)) in
      ps \<noteq> [] \<and> hd ps = dthb_chain b \<and> chain (dth_next h) (dth_prev h) None ps \<and>
      hash_ndx (str (dthb_chain b)) (dth_mask h) = i \<and> int (length ps) \<le> dthb_len b)"

definition bucket_keys :: "(probe_ref \<Rightarrow> cstr) \<Rightarrow> dtrace_hashbucket list \<Rightarrow> cstr list" where
  "bucket_keys str bs = map (\<lambda>b. str (dthb_chain b)) bs"

definition slot_inv :: "(probe_ref \<Rightarrow> cstr) \<Rightarrow> dtrace_hash \<Rightarrow> (cstr \<Rightarrow> probe_ref list) \<Rightarrow> nat \<Rightarrow> dtrace_hashbucket list \<Rightarrow> bool" where
  "slot_inv str h F i bs \<longleftrightarrow>
     distinct (bucket_keys str bs) \<and> (\<forall>b \<in> set bs. bucket_inv str h F i b) \<and>
     (\<forall>s. hash_ndx s (dth_mask h) = i \<and> F s \<noteq> [] \<longrightarrow> s \<in> set (bucket_keys str bs))"

definition hash_inv :: "(probe_ref \<Rightarrow> cstr) \<Rightarrow> dtrace_hash \<Rightarrow> (cstr \<Rightarrow> probe_ref list) \<Rightarrow> bool" where
  "hash_inv str h F \<longleftrightarrow>
     length (dth_tab h) = dth_size h \<and> (\<exists>k. dth_size h = 2 ^ k) \<and> dth_mask h = dth_size h - 1 \<and>
     dth_nbuckets h = length (concat (dth_tab h)) \<and>
     (\<forall>i < dth_size h. slot_inv str h F i (dth_tab h ! i)) \<and>
     (\<forall>s. distinct (F s) \<and> (\<forall>p \<in> set (F s). str p = s))"

lemma hash_invD:
  assumes "hash_inv str h F"
  shows "length (dth_tab h) = dth_size h" "0 < dth_size h" "hash_ndx s (dth_mask h) < dth_size h"
    "i < dth_size h \<Longrightarrow> slot_inv str h F i (dth_tab h ! i)"
    "distinct (F s)" "p \<in> set (F s) \<Longrightarrow> str p = s"
proof -
  obtain k where k: "dth_size h = 2 ^ k" "dth_mask h = 2 ^ k - 1" using assms by (auto simp: hash_inv_def)
  show "length (dth_tab h) = dth_size h" "0 < dth_size h"
    "i < dth_size h \<Longrightarrow> slot_inv str h F i (dth_tab h ! i)"
    "distinct (F s)" "p \<in> set (F s) \<Longrightarrow> str p = s"
    using assms k(1) by (auto simp: hash_inv_def)
  show "hash_ndx s (dth_mask h) < dth_size h"
    using and_exp_minus_1 [of "unat (dtrace_hash_str s)" k] by (simp add: hash_ndx_def k)
qed

text \<open>The slot that a string hashes to.\<close>

abbreviation slot :: "dtrace_hash \<Rightarrow> cstr \<Rightarrow> dtrace_hashbucket list" where
  "slot h s \<equiv> dth_tab h ! hash_ndx s (dth_mask h)"

lemma slot_invD: "hash_inv str h F \<Longrightarrow> slot_inv str h F (hash_ndx s (dth_mask h)) (slot h s)"
  by (simp add: hash_invD)

lemma bucket_find_Some:
  "bucket_find str bs s = Some i \<Longrightarrow> i < length bs \<and> str (dthb_chain (bs ! i)) = s"
  by (induction bs arbitrary: i) (auto split: if_splits)

lemma bucket_find_None: "bucket_find str bs s = None \<longleftrightarrow> s \<notin> set (bucket_keys str bs)"
  by (induction bs) (auto simp: bucket_keys_def)

lemma hash_find_None:
  assumes "hash_inv str h F"
  shows "bucket_find str (slot h s) s = None \<longleftrightarrow> F s = []"
  using slot_invD [OF assms, of s]
  by (auto simp: bucket_find_None slot_inv_def bucket_inv_def Let_def bucket_keys_def)

lemma hash_find_Some:
  assumes "hash_inv str h F" "bucket_find str (slot h s) s = Some i"
  shows "slot h s = take i (slot h s) @ slot h s ! i # drop (Suc i) (slot h s)" "i < length (slot h s)"
    "str (dthb_chain (slot h s ! i)) = s" "bucket_inv str h F (hash_ndx s (dth_mask h)) (slot h s ! i)"
  using bucket_find_Some [OF assms(2)] slot_invD [OF assms(1), of s]
  by (auto simp: slot_inv_def id_take_nth_drop [symmetric])

lemma lookup_inv:
  assumes "hash_inv str h F"
  shows "dtrace_hash_lookup str h s = (case F s of [] \<Rightarrow> None | p # ps \<Rightarrow> Some p)"
proof (cases "bucket_find str (slot h s) s")
  case None
  then show ?thesis using hash_find_None [OF assms, of s] by (simp add: dtrace_hash_lookup_def)
next
  case (Some i)
  note f = hash_find_Some [OF assms Some]
  then have "F s \<noteq> []" "hd (F s) = dthb_chain (slot h s ! i)"
    by (auto simp: bucket_inv_def Let_def)
  then show ?thesis by (cases "F s") (auto simp: dtrace_hash_lookup_def Some)
qed

lemma collisions_inv:
  assumes "hash_inv str h F"
  shows "int (length (F s)) \<le> dtrace_hash_collisions str h s"
proof (cases "bucket_find str (slot h s) s")
  case None
  then show ?thesis using hash_find_None [OF assms, of s] by (simp add: dtrace_hash_collisions_def)
next
  case (Some i)
  then show ?thesis using hash_find_Some [OF assms Some]
    by (auto simp: dtrace_hash_collisions_def bucket_inv_def Let_def)
qed

section \<open>Preservation\<close>

text \<open>The operations change one slot, and the links and the representation of one string.\<close>

definition same_elsewhere ::
  "cstr \<Rightarrow> dtrace_hash \<Rightarrow> (cstr \<Rightarrow> probe_ref list) \<Rightarrow> dtrace_hash \<Rightarrow> (cstr \<Rightarrow> probe_ref list) \<Rightarrow> bool" where
  "same_elsewhere t h F h' F' \<longleftrightarrow> dth_size h' = dth_size h \<and> dth_mask h' = dth_mask h \<and>
     (\<forall>s. s \<noteq> t \<longrightarrow> F' s = F s \<and> (\<forall>p \<in> set (F s). dth_next h' p = dth_next h p \<and> dth_prev h' p = dth_prev h p))"

lemma bucket_inv_frame:
  assumes "bucket_inv str h F i b" "same_elsewhere t h F h' F'" "str (dthb_chain b) \<noteq> t"
  shows "bucket_inv str h' F' i b"
  using assms chain_frame [of "F (str (dthb_chain b))" "dth_next h'" "dth_next h" "dth_prev h'" "dth_prev h" None]
  by (auto simp: bucket_inv_def Let_def same_elsewhere_def)

lemma slot_inv_frame:
  assumes "slot_inv str h F i bs" "same_elsewhere t h F h' F'" "hash_ndx t (dth_mask h) \<noteq> i"
  shows "slot_inv str h' F' i bs"
proof -
  have "str (dthb_chain b) \<noteq> t" if "b \<in> set bs" for b
    using that assms(1,3) by (auto simp: slot_inv_def bucket_inv_def Let_def)
  moreover have "s \<noteq> t" if "hash_ndx s (dth_mask h) = i" for s using that assms(3) by auto
  ultimately show ?thesis
    using assms(1,2) bucket_inv_frame [OF _ assms(2)]
    by (auto simp: slot_inv_def same_elsewhere_def)
qed

lemma hash_inv_update:
  assumes inv: "hash_inv str h F" and same: "same_elsewhere t h F h' F'"
    and tab: "dth_tab h' = (dth_tab h)[hash_ndx t (dth_mask h) := bs]"
    and nb: "dth_nbuckets h' + length (slot h t) = dth_nbuckets h + length bs"
    and slot: "slot_inv str h' F' (hash_ndx t (dth_mask h)) bs"
    and F': "distinct (F' t)" "\<And>p. p \<in> set (F' t) \<Longrightarrow> str p = t"
  shows "hash_inv str h' F'"
proof -
  let ?n = "hash_ndx t (dth_mask h)"
  have n: "?n < dth_size h" by (rule hash_invD(3) [OF inv])
  have "slot_inv str h' F' i (dth_tab h' ! i)" if "i < dth_size h" for i
    using that slot slot_inv_frame [OF hash_invD(4) [OF inv that] same] hash_invD(1) [OF inv] n
    by (cases "i = ?n") (auto simp: tab)
  moreover have "length (concat (dth_tab h')) + length (slot h t) = length (concat (dth_tab h)) + length bs"
    using arg_cong [OF mset_concat_update [of ?n "dth_tab h" bs], of size] n hash_invD(1) [OF inv]
    by (simp add: tab)
  moreover have "distinct (F' s) \<and> (\<forall>p \<in> set (F' s). str p = s)" for s
    using F' same inv by (cases "s = t") (auto simp: same_elsewhere_def hash_inv_def)
  ultimately show ?thesis
    using inv same nb by (auto simp: hash_inv_def same_elsewhere_def tab)
qed


text \<open>Replacing, adding and removing a bucket of a slot.\<close>

lemma distinct_map_other:
  assumes "distinct (map f (xs @ x # ys))" "y \<in> set (xs @ ys)"
  shows "f y \<noteq> f x"
proof -
  have "f x \<notin> f ` set (xs @ ys)" using assms(1) by (simp add: image_Un)
  then show ?thesis using imageI [OF assms(2), of f] by metis
qed

lemma slot_other:
  assumes "slot_inv str h F i (xs @ b # ys)" "b2 \<in> set (xs @ ys)"
  shows "str (dthb_chain b2) \<noteq> str (dthb_chain b)"
  using distinct_map_other [of "\<lambda>b. str (dthb_chain b)" xs b ys b2] assms
  by (simp add: slot_inv_def bucket_keys_def)

lemma slot_replace:
  assumes "slot_inv str h F (hash_ndx t (dth_mask h)) (xs @ b # ys)" "str (dthb_chain b) = t" "str (dthb_chain b') = t"
    and "same_elsewhere t h F h' F'" "bucket_inv str h' F' (hash_ndx t (dth_mask h)) b'"
  shows "slot_inv str h' F' (hash_ndx t (dth_mask h)) (xs @ b' # ys)"
proof -
  have "str (dthb_chain b2) \<noteq> t" if "b2 \<in> set (xs @ ys)" for b2
    using slot_other [OF assms(1) that] assms(2) by simp
  then have "bucket_inv str h' F' (hash_ndx t (dth_mask h)) b2" if "b2 \<in> set (xs @ b' # ys)" for b2
    using that assms by (auto simp: slot_inv_def intro: bucket_inv_frame [OF _ assms(4)])
  then show ?thesis
    using assms by (auto simp: slot_inv_def bucket_keys_def same_elsewhere_def)
qed

lemma slot_cons:
  assumes "slot_inv str h F (hash_ndx t (dth_mask h)) bs" "F t = []" "str (dthb_chain b) = t"
    and "same_elsewhere t h F h' F'" "bucket_inv str h' F' (hash_ndx t (dth_mask h)) b"
  shows "slot_inv str h' F' (hash_ndx t (dth_mask h)) (b # bs)"
proof -
  have t: "str (dthb_chain b2) \<noteq> t" if "b2 \<in> set bs" for b2
    using that assms(1,2) by (auto simp: slot_inv_def bucket_inv_def Let_def)
  then have "bucket_inv str h' F' (hash_ndx t (dth_mask h)) b2" if "b2 \<in> set (b # bs)" for b2
    using that assms by (auto simp: slot_inv_def intro: bucket_inv_frame [OF _ assms(4)])
  moreover have "t \<notin> set (bucket_keys str bs)" using t by (force simp: bucket_keys_def)
  ultimately show ?thesis
    using assms by (simp add: slot_inv_def same_elsewhere_def) (auto simp: bucket_keys_def)
qed

lemma slot_delete:
  assumes "slot_inv str h F (hash_ndx t (dth_mask h)) (xs @ b # ys)" "str (dthb_chain b) = t"
    and "same_elsewhere t h F h' F'" "F' t = []"
  shows "slot_inv str h' F' (hash_ndx t (dth_mask h)) (xs @ ys)"
proof -
  have t: "str (dthb_chain b2) \<noteq> t" if "b2 \<in> set (xs @ ys)" for b2
    using slot_other [OF assms(1) that] assms(2) by simp
  then have "bucket_inv str h' F' (hash_ndx t (dth_mask h)) b2" if "b2 \<in> set (xs @ ys)" for b2
    using that assms by (auto simp: slot_inv_def intro: bucket_inv_frame [OF _ assms(3)])
  moreover have "s \<in> set (bucket_keys str (xs @ ys))" if "hash_ndx s (dth_mask h) = hash_ndx t (dth_mask h)" "F' s \<noteq> []" for s
  proof -
    have "s \<noteq> t" "F s \<noteq> []" using that assms(3,4) by (auto simp: same_elsewhere_def)
    then show ?thesis using that(1) assms(1,2) by (auto simp: slot_inv_def bucket_keys_def)
  qed
  ultimately show ?thesis
    using assms by (auto simp: slot_inv_def bucket_keys_def same_elsewhere_def)
qed

lemma hash_push_inv:
  assumes inv: "hash_inv str h F" and found: "bucket_find str (slot h (str new)) (str new) = Some i"
    and new: "new \<notin> set (F (str new))" "dth_next h new = None" "dth_prev h new = None"
  shows "\<exists>h'. hash_push new (hash_ndx (str new) (dth_mask h)) i h = Some h' \<and>
    hash_inv str h' (F(str new := new # F (str new)))"
proof -
  define t n where "t = str new" and "n = hash_ndx t (dth_mask h)"
  define b c where "b = slot h t ! i" and "c = dthb_chain b"
  define b' where "b' = b\<lparr>dthb_chain := new, dthb_len := dthb_len b + 1\<rparr>"
  note f = hash_find_Some [OF inv found, folded t_def, folded b_def]
  obtain ps where ps: "F t = c # ps" using f by (cases "F t") (auto simp: bucket_inv_def Let_def c_def)
  have ch: "chain (dth_next h) (dth_prev h) None (c # ps)" and len: "int (length (c # ps)) \<le> dthb_len b"
    using f(3,4) ps by (auto simp: bucket_inv_def Let_def)
  have d: "distinct (c # ps)" "new \<notin> set (c # ps)" "str c = t"
    using hash_invD(5) [OF inv, of t] hash_invD(6) [OF inv, of _ t] ps new(1) f(3) by (auto simp: t_def c_def)
  let ?F = "F(t := new # F t)" and ?bs = "take i (slot h t) @ b' # drop (Suc i) (slot h t)"
  define h' where "h' = h\<lparr>dth_next := (dth_next h)(new := Some c), dth_prev := (dth_prev h)(c := Some new),
    dth_tab := (dth_tab h)[n := ?bs]\<rparr>"
  have "hash_push new n i h = Some h'"
    using new ch f(2)
    by (simp add: hash_push_def Let_def h'_def b_def b'_def c_def n_def upd_conv_take_nth_drop)
  moreover have "hash_inv str h' ?F"
  proof (rule hash_inv_update [OF inv])
    show same: "same_elsewhere t h F h' ?F"
      using hash_invD(6) [OF inv] d(3) by (auto simp: same_elsewhere_def h'_def t_def)
    show "dth_tab h' = (dth_tab h)[hash_ndx t (dth_mask h) := ?bs]" by (simp add: h'_def n_def)
    show "dth_nbuckets h' + length (slot h t) = dth_nbuckets h + length ?bs" using f(2) by (simp add: h'_def)
    show "slot_inv str h' ?F (hash_ndx t (dth_mask h)) ?bs"
    proof (rule slot_replace [where b = b and F = F])
      show "bucket_inv str h' ?F (hash_ndx t (dth_mask h)) b'"
        using chain_push [OF ch d(2) new(3) d(1)] ps len by (simp add: bucket_inv_def Let_def b'_def h'_def t_def)
      show "slot_inv str h F (hash_ndx t (dth_mask h)) (take i (slot h t) @ b # drop (Suc i) (slot h t))"
        using slot_invD [OF inv, of t] f(1) by metis
    qed (use f(3) same in \<open>simp_all add: b'_def t_def\<close>)
  qed (use ps d hash_invD(5,6) [OF inv] in \<open>auto simp: t_def\<close>)
  ultimately show ?thesis by (simp add: t_def n_def)
qed

lemma hash_new_bucket_inv:
  assumes inv: "hash_inv str h F" and F: "F (str new) = []"
    and new: "dth_next h new = None" "dth_prev h new = None"
  shows "\<exists>h'. hash_new_bucket new (hash_ndx (str new) (dth_mask h)) h = Some h' \<and>
    hash_inv str h' (F(str new := [new]))"
proof -
  define t where "t = str new"
  let ?b = "\<lparr>dthb_chain = new, dthb_len = 1\<rparr>" and ?F = "F(t := [new])"
  define h' where "h' = h\<lparr>dth_next := (dth_next h)(new := None),
    dth_tab := (dth_tab h)[hash_ndx t (dth_mask h) := ?b # slot h t], dth_nbuckets := dth_nbuckets h + 1\<rparr>"
  have "hash_new_bucket new (hash_ndx t (dth_mask h)) h = Some h'"
    using new by (simp add: hash_new_bucket_def h'_def)
  moreover have "hash_inv str h' ?F"
  proof (rule hash_inv_update [OF inv])
    show same: "same_elsewhere t h F h' ?F" using new by (auto simp: same_elsewhere_def h'_def)
    show "dth_tab h' = (dth_tab h)[hash_ndx t (dth_mask h) := ?b # slot h t]" by (simp add: h'_def)
    show "slot_inv str h' ?F (hash_ndx t (dth_mask h)) (?b # slot h t)"
      using slot_invD [OF inv, of t] F new same
      by (intro slot_cons [where F = F]) (simp_all add: t_def bucket_inv_def h'_def)
  qed (simp_all add: h'_def t_def)
  ultimately show ?thesis by (simp add: t_def)
qed


lemma slot_unchanged:
  assumes "hash_inv str h F"
  shows "(dth_tab h)[hash_ndx t (dth_mask h) := slot h t] = dth_tab h"
  by simp

lemma hash_remove_inv:
  assumes inv: "hash_inv str h F" and mem: "probe \<in> set (F (str probe))"
  shows "\<exists>h'. dtrace_hash_remove str probe h = Some h' \<and>
    hash_inv str h' (F(str probe := remove1 probe (F (str probe))))"
proof -
  define t n where "t = str probe" and "n = hash_ndx t (dth_mask h)"
  obtain xs ys where F: "F t = xs @ probe # ys" and xs: "probe \<notin> set xs"
    using mem split_list_first [of probe "F t"] by (auto simp: t_def)
  obtain i where found: "bucket_find str (slot h t) t = Some i"
    using hash_find_None [OF inv, of t] F by (cases "bucket_find str (slot h t) t") auto
  define b where "b = slot h t ! i"
  note f = hash_find_Some [OF inv found, folded b_def]
  have ch: "chain (dth_next h) (dth_prev h) None (F t)" and len: "int (length (F t)) \<le> dthb_len b"
    and hd: "hd (F t) = dthb_chain b"
    using f(3,4) by (auto simp: bucket_inv_def Let_def)
  have d: "distinct (xs @ probe # ys)" "\<And>p. p \<in> set (F t) \<Longrightarrow> str p = t"
    using hash_invD(5) [OF inv, of t] hash_invD(6) [OF inv, of _ t] F by auto
  note mid = chain_mid [OF ch [unfolded F]] and rem = chain_remove [OF ch [unfolded F] d(1)]
  let ?F = "F(t := xs @ ys)"
  define b' where "b' = b\<lparr>dthb_chain := hd (xs @ ys)\<rparr>"
  define bs where "bs = take i (slot h t) @ (if xs @ ys = [] then [] else [b']) @ drop (Suc i) (slot h t)"
  define h' where "h' = h\<lparr>dth_next := unlink_next xs probe (dth_next h), dth_prev := unlink_prev probe ys (dth_prev h),
    dth_tab := (dth_tab h)[n := bs], dth_nbuckets := dth_nbuckets h - (if xs @ ys = [] then 1 else 0)\<rparr>"
  have "slot h t \<in> set (dth_tab h)" "slot h t \<noteq> []" using hash_invD(1,3) [OF inv] f(2) by auto
  then have pos: "0 < dth_nbuckets h" using inv by (auto simp: hash_inv_def)
  have st: "str probe = t" by (simp add: t_def)
  have upd: "(slot h t)[i := b'] = take i (slot h t) @ b' # drop (Suc i) (slot h t)"
    using f(2) by (rule upd_conv_take_nth_drop)
  have "dtrace_hash_remove str probe h = Some h'"
  proof (cases "xs = []")
    case True
    then have cb: "dthb_chain b = probe" using hd F by simp
    show ?thesis
    proof (cases ys)
      case Nil
      with True show ?thesis
        using mid pos cb found
        by (simp add: dtrace_hash_remove_def Let_def st h'_def bs_def n_def b_def unlink_next_def unlink_prev_def)
    next
      case (Cons z zs)
      with True show ?thesis
        using mid found upd
        by (simp add: dtrace_hash_remove_def Let_def st h'_def bs_def n_def b_def b'_def unlink_next_def unlink_prev_def)
    qed
  next
    case False
    have "b' = b" using False hd F by (cases xs) (simp_all add: b'_def)
    then have "bs = slot h t" using False f(1) by (simp add: bs_def)
    then show ?thesis
      using False mid found
      by (cases ys) (simp_all add: dtrace_hash_remove_def Let_def st h'_def n_def unlink_next_def unlink_prev_def)
  qed
  moreover have "hash_inv str h' ?F"
  proof (rule hash_inv_update [OF inv])
    have "p \<notin> set xs" "p \<notin> set ys" if "p \<in> set (F s)" "s \<noteq> t" for p s
      using hash_invD(6) [OF inv that(1)] d(2) [of p] that(2) F by auto
    then show same: "same_elsewhere t h F h' ?F"
      by (auto simp: same_elsewhere_def h'_def intro!: unlink_other)
    show "dth_tab h' = (dth_tab h)[hash_ndx t (dth_mask h) := bs]" by (simp add: h'_def n_def)
    show "dth_nbuckets h' + length (slot h t) = dth_nbuckets h + length bs"
      using f(2) pos by (auto simp: h'_def bs_def)
    have old: "slot_inv str h F (hash_ndx t (dth_mask h)) (take i (slot h t) @ b # drop (Suc i) (slot h t))"
      using slot_invD [OF inv, of t] f(1) by metis
    show "slot_inv str h' ?F (hash_ndx t (dth_mask h)) bs"
    proof (cases "xs @ ys = []")
      case True
      then show ?thesis
        using slot_delete [OF old f(3) same] by (simp add: bs_def)
    next
      case False
      then have b': "str (dthb_chain b') = t" using d(2) F hd_in_set [OF False] by (auto simp: b'_def)
      then have "bucket_inv str h' ?F (hash_ndx t (dth_mask h)) b'"
        using rem len F False by (auto simp: bucket_inv_def Let_def b'_def h'_def)
      from slot_replace [OF old f(3) b' same this] show ?thesis using False by (auto simp: bs_def)
    qed
  qed (use d F in auto)
  ultimately show ?thesis using F xs by (simp add: t_def remove1_append)
qed


lemma distinct_map_concat:
  "(\<And>i. i < length xss \<Longrightarrow> distinct (map f (xss ! i)) \<and> (\<forall>x \<in> set (xss ! i). g (f x) = i)) \<Longrightarrow>
   distinct (map f (concat xss))"
proof (induction xss rule: rev_induct)
  case (snoc ys xss)
  have *: "distinct (map f (xss ! i)) \<and> (\<forall>x \<in> set (xss ! i). g (f x) = i)" if "i < length xss" for i
    using snoc.prems [of i] that by (simp add: nth_append)
  have "g (f x) < length xss" if "x \<in> set (concat xss)" for x
  proof -
    obtain i where "i < length xss" "x \<in> set (xss ! i)"
      using \<open>x \<in> set (concat xss)\<close> by (auto simp: in_set_conv_nth) (metis in_set_conv_nth)
    then show ?thesis using * by auto
  qed
  moreover have "distinct (map f ys)" "\<forall>x \<in> set ys. g (f x) = length xss"
    using snoc.prems [of "length xss"] by (simp_all add: nth_append)
  ultimately have "f ` set (concat xss) \<inter> f ` set ys = {}" by fastforce
  then show ?case using snoc.IH * \<open>distinct (map f ys)\<close> by simp
qed simp

lemma hash_keys_distinct:
  assumes "hash_inv str h F"
  shows "distinct (map (\<lambda>b. str (dthb_chain b)) (concat (dth_tab h)))"
proof (rule distinct_map_concat [where g = "\<lambda>s. hash_ndx s (dth_mask h)"])
  fix i assume "i < length (dth_tab h)"
  then show "distinct (map (\<lambda>b. str (dthb_chain b)) (dth_tab h ! i)) \<and>
      (\<forall>b \<in> set (dth_tab h ! i). hash_ndx (str (dthb_chain b)) (dth_mask h) = i)"
    using hash_invD(4) [OF assms, of i] hash_invD(1) [OF assms]
    by (simp add: slot_inv_def bucket_keys_def bucket_inv_def Let_def)
qed

lemma resize_slots:
  "j < length tab \<Longrightarrow> (\<And>b. b \<in> set bs \<Longrightarrow> hash_ndx (str (dthb_chain b)) m < length tab) \<Longrightarrow>
   foldl (resize_insert str m) tab bs ! j = rev (filter (\<lambda>b. hash_ndx (str (dthb_chain b)) m = j) bs) @ tab ! j"
  by (induction bs arbitrary: tab) (auto simp: resize_insert_def Let_def nth_list_update)

lemma resize_length: "length (foldl (resize_insert str m) tab bs) = length tab"
  by (induction bs arbitrary: tab) (simp_all add: resize_insert_def Let_def)

lemma resize_mset:
  "(\<And>b. b \<in> set bs \<Longrightarrow> hash_ndx (str (dthb_chain b)) m < length tab) \<Longrightarrow>
   mset (concat (foldl (resize_insert str m) tab bs)) = mset (concat tab) + mset bs"
proof (induction bs arbitrary: tab)
  case (Cons b bs)
  let ?i = "hash_ndx (str (dthb_chain b)) m"
  have "mset (concat (resize_insert str m tab b)) = add_mset b (mset (concat tab))"
    using mset_concat_update [of ?i tab "b # tab ! ?i"] Cons.prems [of b] by (simp add: resize_insert_def Let_def)
  moreover have "length (resize_insert str m tab b) = length tab" by (simp add: resize_insert_def Let_def)
  ultimately show ?case using Cons by simp
qed simp

lemma hash_resize_inv:
  assumes inv: "hash_inv str h F"
  shows "\<exists>h'. dtrace_hash_resize str h = Some h' \<and> hash_inv str h' F \<and> dth_size h' = 2 * dth_size h \<and>
    dth_nbuckets h' = dth_nbuckets h \<and> dth_next h' = dth_next h \<and> dth_prev h' = dth_prev h"
proof -
  obtain k where k: "dth_size h = 2 ^ k" using inv by (auto simp: hash_inv_def)
  let ?n = "2 ^ Suc k :: nat" and ?bs = "concat (dth_tab h)"
  define h' where "h' = h\<lparr>dth_tab := foldl (resize_insert str (?n - 1)) (replicate ?n []) ?bs,
    dth_size := ?n, dth_mask := ?n - 1\<rparr>"
  have ndx: "hash_ndx s (?n - 1) < ?n" for s
    using and_exp_minus_1 [of "unat (dtrace_hash_str s)" "Suc k"] by (simp add: hash_ndx_def)
  have "dtrace_hash_resize str h = Some h'"
    using and_exp_minus_1 [of ?n "Suc k"] by (simp add: dtrace_hash_resize_def Let_def k h'_def mult.commute)
  moreover have "hash_inv str h' F"
  proof -
    have tab: "dth_tab h' ! j = rev (filter (\<lambda>b. hash_ndx (str (dthb_chain b)) (?n - 1) = j) ?bs)" if "j < ?n" for j
      using that ndx by (simp add: h'_def resize_slots)
    have old: "bucket_inv str h F (hash_ndx (str (dthb_chain b)) (dth_mask h)) b" if "b \<in> set ?bs" for b
    proof -
      obtain i where "i < dth_size h" "b \<in> set (dth_tab h ! i)"
        using \<open>b \<in> set ?bs\<close> hash_invD(1) [OF inv] by (auto simp: in_set_conv_nth) (metis in_set_conv_nth)
      then have "bucket_inv str h F i b" using hash_invD(4) [OF inv] by (auto simp: slot_inv_def)
      then show ?thesis by (simp add: bucket_inv_def Let_def)
    qed
    have cover: "\<exists>b \<in> set ?bs. str (dthb_chain b) = s" if "F s \<noteq> []" for s
      using slot_invD [OF inv, of s] that hash_invD(1,3) [OF inv]
      by (force simp: slot_inv_def bucket_keys_def)
    have "slot_inv str h' F j (dth_tab h' ! j)" if j: "j < ?n" for j
    proof -
      have "s \<in> (\<lambda>b. str (dthb_chain b)) ` set (dth_tab h' ! j)" if "F s \<noteq> []" "hash_ndx s (?n - 1) = j" for s
        using cover [OF that(1)] that(2) tab [OF j] by auto
      then show ?thesis
        using hash_keys_distinct [OF inv] old tab [OF j]
        by (auto simp: slot_inv_def bucket_keys_def rev_map [symmetric] distinct_map_filter bucket_inv_def Let_def)
          (auto simp: h'_def)
    qed
    moreover have "length (concat (dth_tab h')) = length ?bs"
      using arg_cong [OF resize_mset [of ?bs str "?n - 1" "replicate ?n []"], of size] ndx by (simp add: h'_def)
    moreover have "\<exists>m. dth_size h' = 2 ^ m" by (rule exI [of _ "Suc k"]) (simp add: h'_def)
    ultimately show ?thesis
      using inv by (simp add: hash_inv_def) (simp add: h'_def resize_length)
  qed
  ultimately show ?thesis by (simp add: h'_def k)
qed

lemma hash_add_inv:
  assumes "hash_inv str h F" "new \<notin> set (F (str new))" "dth_next h new = None" "dth_prev h new = None"
  shows "\<exists>h'. dtrace_hash_add str new h = Some h' \<and> hash_inv str h' (F(str new := new # F (str new)))"
  using assms
proof (induction "dth_nbuckets h - dth_size h" arbitrary: h rule: less_induct)
  case less
  show ?case
  proof (cases "bucket_find str (slot h (str new)) (str new)")
    case (Some i)
    then show ?thesis
      using hash_push_inv [OF less.prems(1) Some less.prems(2-4)] by (subst dtrace_hash_add.simps) simp
  next
    case None
    then have F: "F (str new) = []" using hash_find_None [OF less.prems(1)] by simp
    show ?thesis
    proof (cases "dth_nbuckets h div 2 > dth_size h")
      case True
      obtain h' where h': "dtrace_hash_resize str h = Some h'" "hash_inv str h' F" "dth_size h' = 2 * dth_size h"
        "dth_nbuckets h' = dth_nbuckets h" "dth_next h' = dth_next h" "dth_prev h' = dth_prev h"
        using hash_resize_inv [OF less.prems(1)] by blast
      then have "dth_nbuckets h' - dth_size h' < dth_nbuckets h - dth_size h"
        using True hash_invD(2) [OF less.prems(1)] by simp
      from less.hyps [OF this h'(2)] less.prems h' True None show ?thesis
        by (subst dtrace_hash_add.simps) simp
    next
      case False
      then show ?thesis
        using hash_new_bucket_inv [OF less.prems(1) F less.prems(3,4)] None F
        by (subst dtrace_hash_add.simps) simp
    qed
  qed
qed

lemma hash_create_inv: "hash_inv str dtrace_hash_create (\<lambda>s. [])"
  by (auto simp: hash_inv_def dtrace_hash_create_def slot_inv_def bucket_keys_def intro: exI [of _ 0])

lemma hash_next_inv:
  assumes "hash_inv str h F" "F s = xs @ p # ys"
  shows "dth_next h p = (case ys of [] \<Rightarrow> None | q # qs \<Rightarrow> Some q)"
proof -
  obtain i where "bucket_find str (slot h s) s = Some i"
    using hash_find_None [OF assms(1), of s] assms(2) by (cases "bucket_find str (slot h s) s") auto
  from hash_find_Some [OF assms(1) this] have "chain (dth_next h) (dth_prev h) None (F s)"
    by (auto simp: bucket_inv_def Let_def)
  then show ?thesis using chain_mid assms(2) by metis
qed

section \<open>The interface of a probe index\<close>

text \<open>
  What the rest of the driver relies on: a table represents, for every string, the list of the probes
  that have it; insertion, removal and lookup act on these lists, the links walk them, and the collision
  count bounds their length.
\<close>

locale probe_index =
  fixes str :: "probe_ref \<Rightarrow> cstr"
    and inv :: "'h \<Rightarrow> (cstr \<Rightarrow> probe_ref list) \<Rightarrow> bool"
    and fresh :: "'h \<Rightarrow> probe_ref \<Rightarrow> bool"
    and add :: "probe_ref \<Rightarrow> 'h \<Rightarrow> 'h option"
    and remove :: "probe_ref \<Rightarrow> 'h \<Rightarrow> 'h option"
    and lookup :: "'h \<Rightarrow> cstr \<Rightarrow> probe_ref option"
    and succ :: "'h \<Rightarrow> probe_ref \<Rightarrow> probe_ref option"
    and collisions :: "'h \<Rightarrow> cstr \<Rightarrow> int"
  assumes add_law: "inv h F \<Longrightarrow> new \<notin> set (F (str new)) \<Longrightarrow> fresh h new \<Longrightarrow>
      \<exists>h'. add new h = Some h' \<and> inv h' (F(str new := new # F (str new)))"
    and remove_law: "inv h F \<Longrightarrow> p \<in> set (F (str p)) \<Longrightarrow>
      \<exists>h'. remove p h = Some h' \<and> inv h' (F(str p := remove1 p (F (str p))))"
    and lookup_law: "inv h F \<Longrightarrow> lookup h s = (case F s of [] \<Rightarrow> None | p # ps \<Rightarrow> Some p)"
    and succ_law: "inv h F \<Longrightarrow> F s = xs @ p # ys \<Longrightarrow> succ h p = (case ys of [] \<Rightarrow> None | q # qs \<Rightarrow> Some q)"
    and collisions_law: "inv h F \<Longrightarrow> int (length (F s)) \<le> collisions h s"
    and strings: "inv h F \<Longrightarrow> distinct (F s) \<and> (\<forall>p \<in> set (F s). str p = s)"

definition hash_fresh :: "dtrace_hash \<Rightarrow> probe_ref \<Rightarrow> bool" where
  "hash_fresh h p \<longleftrightarrow> dth_next h p = None \<and> dth_prev h p = None"

interpretation probe_hash: probe_index str "hash_inv str" hash_fresh "dtrace_hash_add str" "dtrace_hash_remove str"
    "dtrace_hash_lookup str" dth_next "dtrace_hash_collisions str"
  for str
proof unfold_locales
  fix h F new
  show "hash_inv str h F \<Longrightarrow> new \<notin> set (F (str new)) \<Longrightarrow> hash_fresh h new \<Longrightarrow>
      \<exists>h'. dtrace_hash_add str new h = Some h' \<and> hash_inv str h' (F(str new := new # F (str new)))"
    unfolding hash_fresh_def by (rule hash_add_inv) auto
qed (rule hash_remove_inv lookup_inv hash_next_inv collisions_inv; assumption | simp add: hash_inv_def)+

end
