(* ===== verification/DT_Probe.thy ===== *)
theory DT_Probe
  imports DT_Match DT_Hash
begin

text \<open>
  Providers and probes (\<^verbatim>\<open>driver/dtrace.c\<close>): the table \<^verbatim>\<open>dtrace_probes\<close> and the three hashes by
  module, function and name, the operations that create and remove probes, privileges, and the search
  for the probes that match a key.

  Probes and providers are references into heaps. \<^verbatim>\<open>dtrace_probes\<close> is a list of \<^verbatim>\<open>dtrace_nprobes\<close>
  entries, NULL is \<open>None\<close>; the providers linked by \<^verbatim>\<open>dtpv_next\<close> are a list. A failed assertion or a
  NULL dereference is \<open>None\<close>. Locks, cross calls and the destruction callbacks of providers do not change
  this state and are left out; the memory of a new probe or provider comes from the kernel allocator and
  is an argument. The arena of identifiers is the counter of \<^verbatim>\<open>driver/dtrace_linux.c\<close>.
\<close>

type_synonym provider_ref = nat

record dtrace_provider =
  dtpv_name :: cstr
  dtpp_flags :: u32
  dtpp_uid :: u32
  dtpp_zoneid :: u32
  dtpv_defunct :: bool
  dtps_enable_nullop :: bool

record dtrace_probe =
  dtpr_id :: nat
  dtpr_ecb :: "nat option"
  dtpr_arg :: u64
  dtpr_aframes :: int
  dtpr_provider :: provider_ref
  dtpr_mod :: cstr
  dtpr_func :: cstr
  dtpr_name :: cstr
  dtpr_gen :: nat

record dtrace_core =
  probe_heap :: "probe_ref \<Rightarrow> dtrace_probe"
  provider_heap :: "provider_ref \<Rightarrow> dtrace_provider"
  dtrace_probes :: "probe_ref option list"
  dtrace_arena :: nat
  dtrace_probegen :: nat
  dtrace_bymod :: dtrace_hash
  dtrace_byfunc :: dtrace_hash
  dtrace_byname :: dtrace_hash
  dtrace_provider_list :: "provider_ref list"
  dtrace_opens :: nat
  dta_necbs :: "nat option"
  dta_enabling :: bool

abbreviation (input) DTRACE_IDNONE :: nat where "DTRACE_IDNONE \<equiv> 0"
abbreviation (input) DTRACE_PRIV_KERNEL :: u32 where "DTRACE_PRIV_KERNEL \<equiv> 0x01"
abbreviation (input) DTRACE_PRIV_USER :: u32 where "DTRACE_PRIV_USER \<equiv> 0x02"
abbreviation (input) DTRACE_PRIV_PROC :: u32 where "DTRACE_PRIV_PROC \<equiv> 0x04"
abbreviation (input) DTRACE_PRIV_OWNER :: u32 where "DTRACE_PRIV_OWNER \<equiv> 0x08"
abbreviation (input) DTRACE_PRIV_ZONEOWNER :: u32 where "DTRACE_PRIV_ZONEOWNER \<equiv> 0x10"

definition DTRACE_PRIV_ALL :: u32 where
  "DTRACE_PRIV_ALL = DTRACE_PRIV_KERNEL OR DTRACE_PRIV_USER OR DTRACE_PRIV_PROC OR DTRACE_PRIV_OWNER OR
     DTRACE_PRIV_ZONEOWNER"

abbreviation (input) DTRACE_MATCH_FAIL :: int where "DTRACE_MATCH_FAIL \<equiv> -1"
abbreviation (input) DTRACE_MATCH_NEXT :: int where "DTRACE_MATCH_NEXT \<equiv> 0"
abbreviation (input) DTRACE_MATCH_DONE :: int where "DTRACE_MATCH_DONE \<equiv> 1"

section \<open>Privileges\<close>

text \<open>
  The credentials of a consumer: whether each privilege is held (\<^verbatim>\<open>PRIV_POLICY_ONLY\<close>), user and zone.
\<close>

record cred =
  priv_all :: bool
  priv_dtrace_kernel :: bool
  priv_dtrace_user :: bool
  priv_dtrace_proc :: bool
  priv_proc_owner :: bool
  priv_proc_zone :: bool
  cr_uid :: u32
  cr_zoneid :: u32

text \<open>The user and zone are only set when the privileges are restricted.\<close>

definition dtrace_cred2priv :: "cred option \<Rightarrow> u32 \<Rightarrow> u32 \<Rightarrow> u32 \<times> u32 \<times> u32" where
  "dtrace_cred2priv cr uid zoneid =
     (case cr of
        None \<Rightarrow> (DTRACE_PRIV_ALL, uid, zoneid)
      | Some c \<Rightarrow>
          if priv_all c then (DTRACE_PRIV_ALL, uid, zoneid)
          else
            ((if priv_dtrace_kernel c then DTRACE_PRIV_KERNEL OR DTRACE_PRIV_USER
              else if priv_dtrace_user c then DTRACE_PRIV_USER else 0) OR
             (if priv_dtrace_proc c then DTRACE_PRIV_PROC else 0) OR
             (if priv_proc_owner c then DTRACE_PRIV_OWNER else 0) OR
             (if priv_proc_zone c then DTRACE_PRIV_ZONEOWNER else 0),
             cr_uid c, cr_zoneid c))"

definition dtrace_match_priv :: "dtrace_provider \<Rightarrow> u32 \<Rightarrow> u32 \<Rightarrow> u32 \<Rightarrow> bool" where
  "dtrace_match_priv pvp priv uid zoneid =
     (if priv \<noteq> DTRACE_PRIV_ALL then
        (let ppriv = dtpp_flags pvp; match = priv AND ppriv in
         if priv AND (DTRACE_PRIV_PROC OR DTRACE_PRIV_USER OR DTRACE_PRIV_KERNEL) = 0 then False
         else if match = 0 \<and> ppriv \<noteq> 0 then False
         else if (ppriv AND NOT match) AND DTRACE_PRIV_OWNER \<noteq> 0 \<and> uid \<noteq> dtpp_uid pvp then False
         else if (ppriv AND NOT match) AND DTRACE_PRIV_ZONEOWNER \<noteq> 0 \<and> zoneid \<noteq> dtpp_zoneid pvp then False
         else True)
      else True)"

section \<open>Provider registration\<close>

record dtrace_attribute =
  dtat_name :: nat
  dtat_data :: nat
  dtat_class :: nat

abbreviation (input) DTRACE_STABILITY_MAX :: nat where "DTRACE_STABILITY_MAX \<equiv> 7"
abbreviation (input) DTRACE_CLASS_MAX :: nat where "DTRACE_CLASS_MAX \<equiv> 5"

definition dtrace_badattr :: "dtrace_attribute \<Rightarrow> bool" where
  "dtrace_badattr a \<longleftrightarrow>
     dtat_name a > DTRACE_STABILITY_MAX \<or> dtat_data a > DTRACE_STABILITY_MAX \<or> dtat_class a > DTRACE_CLASS_MAX"

text \<open>
  Which of the operations of a provider are not NULL, whether \<^verbatim>\<open>dtps_enable\<close> is
  \<^verbatim>\<open>dtrace_enable_nullop\<close> and whether they are DTrace's own \<^verbatim>\<open>dtrace_provider_ops\<close>.
\<close>

record dtrace_pops =
  dtps_provide :: bool
  dtps_provide_module :: bool
  dtps_enable :: bool
  dtps_disable :: bool
  dtps_suspend :: bool
  dtps_resume :: bool
  dtps_usermode :: bool
  dtps_destroy :: bool
  dtps_enable_null :: bool
  dtps_own :: bool

definition EINVAL :: nat where "EINVAL = 22"
definition EBUSY :: nat where "EBUSY = 16"

text \<open>The checks of \<^verbatim>\<open>dtrace_register\<close>; \<open>pap\<close> holds the five attributes.\<close>

definition register_check ::
  "cstr option \<Rightarrow> dtrace_attribute list option \<Rightarrow> u32 \<Rightarrow> dtrace_pops option \<Rightarrow> bool \<Rightarrow> nat" where
  "register_check name pap priv pops idp =
     (case (name, pap, pops, idp) of
        (Some nm, Some pa, Some po, True) \<Rightarrow>
          if nm = [] \<or> dtrace_badname (Some nm) then EINVAL
          else if (\<not> dtps_provide po \<and> \<not> dtps_provide_module po) \<or> \<not> dtps_enable po \<or> \<not> dtps_disable po \<or>
            \<not> dtps_destroy po \<or> dtps_resume po \<noteq> dtps_suspend po then EINVAL
          else if list_ex dtrace_badattr pa then EINVAL
          else if priv AND NOT DTRACE_PRIV_ALL \<noteq> 0 then EINVAL
          else if priv AND DTRACE_PRIV_KERNEL \<noteq> 0 \<and> priv AND (DTRACE_PRIV_USER OR DTRACE_PRIV_OWNER) \<noteq> 0 \<and>
            \<not> dtps_usermode po then EINVAL
          else 0
      | _ \<Rightarrow> EINVAL)"

text \<open>DTrace's own provider goes to the head of the chain, any other one behind the head.\<close>

definition register_link :: "bool \<Rightarrow> provider_ref \<Rightarrow> provider_ref list \<Rightarrow> provider_ref list" where
  "register_link own pv pvs =
     (if own then pv # pvs else case pvs of [] \<Rightarrow> [pv] | p # ps \<Rightarrow> p # pv # ps)"

definition dtrace_register ::
  "cstr option \<Rightarrow> dtrace_attribute list option \<Rightarrow> u32 \<Rightarrow> cred option \<Rightarrow> dtrace_pops option \<Rightarrow> bool \<Rightarrow> provider_ref \<Rightarrow>
   dtrace_core \<Rightarrow> (nat \<times> dtrace_core) option" where
  "dtrace_register name pap priv cr pops idp pv st =
     (let rc = register_check name pap priv pops idp in
      if rc \<noteq> 0 then Some (rc, st)
      else if dtps_own (the pops) \<and> dta_enabling st then None
      else
        (let provider = \<lparr>dtpv_name = the name, dtpp_flags = priv,
               dtpp_uid = (case cr of None \<Rightarrow> 0 | Some c \<Rightarrow> cr_uid c),
               dtpp_zoneid = (case cr of None \<Rightarrow> 0 | Some c \<Rightarrow> cr_zoneid c),
               dtpv_defunct = False, dtps_enable_nullop = dtps_enable_null (the pops)\<rparr>
         in Some (0, st\<lparr>provider_heap := (provider_heap st)(pv := provider),
               dtrace_provider_list := register_link (dtps_own (the pops)) pv (dtrace_provider_list st)\<rparr>)))"

definition dtrace_invalidate :: "provider_ref \<Rightarrow> dtrace_core \<Rightarrow> dtrace_core option" where
  "dtrace_invalidate pv st =
     (if dtps_enable_nullop (provider_heap st pv) then None
      else Some (st\<lparr>provider_heap := (provider_heap st)(pv := (provider_heap st pv)\<lparr>dtpv_defunct := True\<rparr>)\<rparr>))"

definition dtrace_attached :: "dtrace_core \<Rightarrow> bool" where
  "dtrace_attached st \<longleftrightarrow> dtrace_provider_list st \<noteq> []"

section \<open>Creating and removing probes\<close>

abbreviation mod_of :: "dtrace_core \<Rightarrow> probe_ref \<Rightarrow> cstr" where "mod_of st p \<equiv> dtpr_mod (probe_heap st p)"
abbreviation func_of :: "dtrace_core \<Rightarrow> probe_ref \<Rightarrow> cstr" where "func_of st p \<equiv> dtpr_func (probe_heap st p)"
abbreviation name_of :: "dtrace_core \<Rightarrow> probe_ref \<Rightarrow> cstr" where "name_of st p \<equiv> dtpr_name (probe_heap st p)"

definition dtrace_strdup :: "cstr option \<Rightarrow> cstr" where
  "dtrace_strdup s = (case s of None \<Rightarrow> [] | Some s \<Rightarrow> s)"

text \<open>\<^verbatim>\<open>kmem_zalloc\<close> clears the links of the new probe in every hash.\<close>

definition hash_zero :: "probe_ref \<Rightarrow> dtrace_hash \<Rightarrow> dtrace_hash" where
  "hash_zero p h = h\<lparr>dth_next := (dth_next h)(p := None), dth_prev := (dth_prev h)(p := None)\<rparr>"

text \<open>The arena of identifiers is a counter that never gives an identifier back.\<close>

definition INT_MAX :: nat where "INT_MAX = 0x7FFFFFFF"

definition vmem_alloc :: "nat \<Rightarrow> (nat \<times> nat) option" where
  "vmem_alloc seq_id = (if seq_id \<ge> INT_MAX then None else Some (seq_id + 1, seq_id + 1))"

definition grow_probes :: "probe_ref option list \<Rightarrow> probe_ref option list" where
  "grow_probes ps = (if ps = [] then [None] else ps @ replicate (length ps) None)"

definition probe_room :: "nat \<Rightarrow> probe_ref option list \<Rightarrow> probe_ref option list" where
  "probe_room i ps = (if i \<ge> length ps then grow_probes ps else ps)"

definition probe_init ::
  "provider_ref \<Rightarrow> cstr option \<Rightarrow> cstr option \<Rightarrow> cstr option \<Rightarrow> int \<Rightarrow> u64 \<Rightarrow> nat \<Rightarrow> probe_ref \<Rightarrow> dtrace_core \<Rightarrow> dtrace_core" where
  "probe_init prov md func name aframes arg ident p st =
     (let pr = \<lparr>dtpr_id = ident, dtpr_ecb = None, dtpr_arg = arg, dtpr_aframes = aframes, dtpr_provider = prov,
                dtpr_mod = dtrace_strdup md, dtpr_func = dtrace_strdup func, dtpr_name = dtrace_strdup name,
                dtpr_gen = dtrace_probegen st\<rparr>
      in st\<lparr>probe_heap := (probe_heap st)(p := pr), dtrace_probegen := dtrace_probegen st + 1,
            dtrace_bymod := hash_zero p (dtrace_bymod st), dtrace_byfunc := hash_zero p (dtrace_byfunc st),
            dtrace_byname := hash_zero p (dtrace_byname st)\<rparr>)"

definition probe_insert :: "nat \<Rightarrow> probe_ref \<Rightarrow> dtrace_core \<Rightarrow> dtrace_core option" where
  "probe_insert ident p st = do {
     hm \<leftarrow> dtrace_hash_add (mod_of st) p (dtrace_bymod st);
     hf \<leftarrow> dtrace_hash_add (func_of st) p (dtrace_byfunc st);
     hn \<leftarrow> dtrace_hash_add (name_of st) p (dtrace_byname st);
     let probes = probe_room (ident - 1) (dtrace_probes st);
     if ident - 1 \<ge> length probes then None
     else if probes ! (ident - 1) \<noteq> None then None
     else Some (st\<lparr>dtrace_bymod := hm, dtrace_byfunc := hf, dtrace_byname := hn,
            dtrace_probes := probes[ident - 1 := Some p]\<rparr>)
   }"

definition dtrace_probe_create ::
  "provider_ref \<Rightarrow> cstr option \<Rightarrow> cstr option \<Rightarrow> cstr option \<Rightarrow> int \<Rightarrow> u64 \<Rightarrow> probe_ref option \<Rightarrow>
   dtrace_core \<Rightarrow> (nat \<times> dtrace_core) option" where
  "dtrace_probe_create prov md func name aframes arg probe st = do {
     (ident, seq_id) \<leftarrow> vmem_alloc (dtrace_arena st);
     let st = st\<lparr>dtrace_arena := seq_id\<rparr>;
     case probe of
       None \<Rightarrow> Some (0, st)
     | Some p \<Rightarrow> map_option (Pair ident) (probe_insert ident p (probe_init prov md func name aframes arg ident p st))
   }"

text \<open>Taking a probe out of its table entry and its hash chains.\<close>

definition probe_unlink :: "nat \<Rightarrow> probe_ref \<Rightarrow> dtrace_core \<Rightarrow> dtrace_core option" where
  "probe_unlink i p st = do {
     hm \<leftarrow> dtrace_hash_remove (mod_of st) p (dtrace_bymod st);
     hf \<leftarrow> dtrace_hash_remove (func_of st) p (dtrace_byfunc st);
     hn \<leftarrow> dtrace_hash_remove (name_of st) p (dtrace_byname st);
     Some (st\<lparr>dtrace_probes := (dtrace_probes st)[i := None],
       dtrace_bymod := hm, dtrace_byfunc := hf, dtrace_byname := hn\<rparr>)
   }"

text \<open>
  The loops over the table, from index \<open>i\<close>: \<^verbatim>\<open>dtrace_condense\<close> keeps enabled probes,
  \<^verbatim>\<open>dtrace_unregister\<close> has checked that there are none.
\<close>

fun unlink_loop :: "(dtrace_probe \<Rightarrow> bool) \<Rightarrow> nat \<Rightarrow> nat \<Rightarrow> dtrace_core \<Rightarrow> dtrace_core option" where
  "unlink_loop sel 0 i st = Some st"
| "unlink_loop sel (Suc n) i st =
     (case dtrace_probes st ! i of
        None \<Rightarrow> unlink_loop sel n (Suc i) st
      | Some p \<Rightarrow>
          if sel (probe_heap st p)
          then Option.bind (probe_unlink i p st) (unlink_loop sel n (Suc i))
          else unlink_loop sel n (Suc i) st)"

definition dtrace_condense :: "provider_ref \<Rightarrow> dtrace_core \<Rightarrow> dtrace_core option" where
  "dtrace_condense prov st =
     (if dtps_enable_nullop (provider_heap st prov) then None
      else unlink_loop (\<lambda>pr. dtpr_provider pr = prov \<and> dtpr_ecb pr = None) (length (dtrace_probes st)) 0 st)"

definition enabled_probe :: "provider_ref \<Rightarrow> dtrace_core \<Rightarrow> probe_ref option \<Rightarrow> bool" where
  "enabled_probe prov st p =
     (case p of
        None \<Rightarrow> False
      | Some p \<Rightarrow> dtpr_provider (probe_heap st p) = prov \<and> dtpr_ecb (probe_heap st p) \<noteq> None)"

text \<open>
  The two assertions on \<^verbatim>\<open>dtrace_devi\<close> at the removal of the first provider are left out: the device
  information belongs to attaching the driver, which puts DTrace's own provider first.
\<close>

definition dtrace_unregister :: "provider_ref \<Rightarrow> dtrace_core \<Rightarrow> (nat \<times> dtrace_core) option" where
  "dtrace_unregister old st =
     (let self = dtps_enable_nullop (provider_heap st old) in
      if self \<and> (dtrace_provider_list st = [] \<or> hd (dtrace_provider_list st) \<noteq> old) then None
      else if self \<and> tl (dtrace_provider_list st) \<noteq> [] then Some (EBUSY, st)
      else if \<not> dtpv_defunct (provider_heap st old) \<and>
        (dtrace_opens st \<noteq> 0 \<or> (case dta_necbs st of None \<Rightarrow> False | Some n \<Rightarrow> n > 0)) then Some (EBUSY, st)
      else if list_ex (enabled_probe old st) (dtrace_probes st) then Some (EBUSY, st)
      else do {
        st \<leftarrow> unlink_loop (\<lambda>pr. dtpr_provider pr = old) (length (dtrace_probes st)) 0 st;
        if old \<notin> set (dtrace_provider_list st) then None
        else Some (0, st\<lparr>dtrace_provider_list := remove1 old (dtrace_provider_list st)\<rparr>)
      })"

definition dtrace_probe_lookup_id :: "nat \<Rightarrow> dtrace_core \<Rightarrow> probe_ref option" where
  "dtrace_probe_lookup_id ident st =
     (if ident = 0 \<or> ident > length (dtrace_probes st) then None else dtrace_probes st ! (ident - 1))"


section \<open>Matching\<close>

record dtrace_probekey_t =
  dtpk_prov :: "cstr option"
  dtpk_pmatch :: dtrace_probekey_f
  dtpk_mod :: "cstr option"
  dtpk_mmatch :: dtrace_probekey_f
  dtpk_func :: "cstr option"
  dtpk_fmatch :: dtrace_probekey_f
  dtpk_name :: "cstr option"
  dtpk_nmatch :: dtrace_probekey_f
  dtpk_id :: nat

record dtrace_probedesc =
  dtpd_id :: nat
  dtpd_provider :: cstr
  dtpd_mod :: cstr
  dtpd_func :: cstr
  dtpd_name :: cstr

definition dtrace_probekey :: "dtrace_probedesc \<Rightarrow> dtrace_probekey_t" where
  "dtrace_probekey pdp =
     (let pmatch = dtrace_probekey_func (Some (dtpd_provider pdp));
          mmatch = dtrace_probekey_func (Some (dtpd_mod pdp));
          fmatch = dtrace_probekey_func (Some (dtpd_func pdp));
          nmatch = dtrace_probekey_func (Some (dtpd_name pdp))
      in \<lparr>dtpk_prov = Some (dtpd_provider pdp), dtpk_pmatch = pmatch, dtpk_mod = Some (dtpd_mod pdp), dtpk_mmatch = mmatch,
           dtpk_func = Some (dtpd_func pdp),
           dtpk_fmatch = (if dtpd_id pdp = DTRACE_IDNONE \<and> pmatch = match_nul \<and> mmatch = match_nul \<and>
               fmatch = match_nul \<and> nmatch = match_nul then match_nonzero else fmatch),
           dtpk_name = Some (dtpd_name pdp), dtpk_nmatch = nmatch, dtpk_id = dtpd_id pdp\<rparr>)"

definition dtrace_match_probe :: "dtrace_core \<Rightarrow> dtrace_probekey_t \<Rightarrow> u32 \<Rightarrow> u32 \<Rightarrow> u32 \<Rightarrow> probe_ref \<Rightarrow> int option" where
  "dtrace_match_probe st pkp priv uid zoneid p =
     (let prp = probe_heap st p; pvp = provider_heap st (dtpr_provider prp) in
      if dtpv_defunct pvp then Some 0
      else do {
        rv \<leftarrow> probekey_call (dtpk_pmatch pkp) (Some (dtpv_name pvp)) (dtpk_prov pkp);
        if rv \<le> 0 then Some rv else do {
          rv \<leftarrow> probekey_call (dtpk_mmatch pkp) (Some (dtpr_mod prp)) (dtpk_mod pkp);
          if rv \<le> 0 then Some rv else do {
            rv \<leftarrow> probekey_call (dtpk_fmatch pkp) (Some (dtpr_func prp)) (dtpk_func pkp);
            if rv \<le> 0 then Some rv else do {
              rv \<leftarrow> probekey_call (dtpk_nmatch pkp) (Some (dtpr_name prp)) (dtpk_name pkp);
              if rv \<le> 0 then Some rv
              else if \<not> dtrace_match_priv pvp priv uid zoneid then Some 0
              else Some rv
            }
          }
        }
      })"

text \<open>
  The callback takes a probe and its argument and returns a code and the argument. The two loops of
  \<^verbatim>\<open>dtrace_match\<close> share their body: \<open>match_one\<close> is \<open>Inl\<close> when the loop ends.
\<close>

type_synonym 'a matched = "probe_ref \<Rightarrow> 'a \<Rightarrow> int \<times> 'a"

definition match_one ::
  "(probe_ref \<Rightarrow> int option) \<Rightarrow> 'a matched \<Rightarrow> probe_ref \<Rightarrow> int \<times> 'a \<Rightarrow> (int \<times> 'a + int \<times> 'a) option" where
  "match_one test matched p = (\<lambda>(nmatched, arg). do {
     rv \<leftarrow> test p;
     if rv \<le> 0 then Some (Inr (nmatched, arg))
     else
       (let (rc, arg) = matched p arg in
        if rc \<noteq> DTRACE_MATCH_NEXT
        then Some (Inl (if rc = DTRACE_MATCH_FAIL then DTRACE_MATCH_FAIL else nmatched + 1, arg))
        else Some (Inr (nmatched + 1, arg)))
   })"

fun match_table ::
  "(probe_ref \<Rightarrow> int option) \<Rightarrow> 'a matched \<Rightarrow> probe_ref option list \<Rightarrow> int \<times> 'a \<Rightarrow> (int \<times> 'a) option" where
  "match_table test matched [] x = Some x"
| "match_table test matched (None # ps) x = match_table test matched ps x"
| "match_table test matched (Some p # ps) x =
     (case match_one test matched p x of
        None \<Rightarrow> None
      | Some (Inl r) \<Rightarrow> Some r
      | Some (Inr x) \<Rightarrow> match_table test matched ps x)"

partial_function (option) match_chain ::
  "(probe_ref \<Rightarrow> probe_ref option) \<Rightarrow> (probe_ref \<Rightarrow> int option) \<Rightarrow> 'a matched \<Rightarrow> probe_ref option \<Rightarrow> int \<times> 'a \<Rightarrow> (int \<times> 'a) option" where
  "match_chain nx test matched probe x =
     (case probe of
        None \<Rightarrow> Some x
      | Some p \<Rightarrow>
          (case match_one test matched p x of
             None \<Rightarrow> None
           | Some (Inl r) \<Rightarrow> Some r
           | Some (Inr x) \<Rightarrow> match_chain nx test matched (nx p) x))"

text \<open>
  The choice of a hash: for an element with an exact string, the table with the fewest collisions so far.
\<close>

datatype hash_sel = ByMod | ByFunc | ByName

definition sel_hash :: "dtrace_core \<Rightarrow> hash_sel \<Rightarrow> dtrace_hash" where
  "sel_hash st s = (case s of ByMod \<Rightarrow> dtrace_bymod st | ByFunc \<Rightarrow> dtrace_byfunc st | ByName \<Rightarrow> dtrace_byname st)"

definition sel_str :: "dtrace_core \<Rightarrow> hash_sel \<Rightarrow> probe_ref \<Rightarrow> cstr" where
  "sel_str st s = (case s of ByMod \<Rightarrow> mod_of st | ByFunc \<Rightarrow> func_of st | ByName \<Rightarrow> name_of st)"

definition sel_key :: "dtrace_probekey_t \<Rightarrow> hash_sel \<Rightarrow> dtrace_probekey_f \<times> cstr option" where
  "sel_key pkp s = (case s of ByMod \<Rightarrow> (dtpk_mmatch pkp, dtpk_mod pkp) | ByFunc \<Rightarrow> (dtpk_fmatch pkp, dtpk_func pkp)
     | ByName \<Rightarrow> (dtpk_nmatch pkp, dtpk_name pkp))"

definition better_hash ::
  "dtrace_core \<Rightarrow> dtrace_probekey_t \<Rightarrow> hash_sel \<Rightarrow> int \<times> (hash_sel \<times> cstr) option \<Rightarrow> (int \<times> (hash_sel \<times> cstr) option) option" where
  "better_hash st pkp s = (\<lambda>(best, hash).
     (case sel_key pkp s of
        (match_string, None) \<Rightarrow> None
      | (match_string, Some t) \<Rightarrow>
          (let len = dtrace_hash_collisions (sel_str st s) (sel_hash st s) t in
           Some (if len < best then (len, Some (s, t)) else (best, hash)))
      | _ \<Rightarrow> Some (best, hash)))"

definition dtrace_match ::
  "dtrace_core \<Rightarrow> dtrace_probekey_t \<Rightarrow> u32 \<Rightarrow> u32 \<Rightarrow> u32 \<Rightarrow> 'a matched \<Rightarrow> 'a \<Rightarrow> (int \<times> 'a) option" where
  "dtrace_match st pkp priv uid zoneid matched arg =
     (let test = dtrace_match_probe st pkp priv uid zoneid in
      if dtpk_id pkp \<noteq> DTRACE_IDNONE then
        (case dtrace_probe_lookup_id (dtpk_id pkp) st of
           None \<Rightarrow> Some (0, arg)
         | Some p \<Rightarrow> do {
             rv \<leftarrow> test p;
             Some (if rv > 0 then (1, snd (matched p arg)) else (0, arg))
           })
      else do {
        x \<leftarrow> better_hash st pkp ByMod (int INT_MAX, None);
        x \<leftarrow> better_hash st pkp ByFunc x;
        (best, hash) \<leftarrow> better_hash st pkp ByName x;
        (case hash of
           None \<Rightarrow> match_table test matched (dtrace_probes st) (0, arg)
         | Some (s, t) \<Rightarrow>
             match_chain (dth_next (sel_hash st s)) test matched
               (dtrace_hash_lookup (sel_str st s) (sel_hash st s) t) (0, arg))
      })"

definition dtrace_probe_lookup_match :: "dtrace_core \<Rightarrow> nat matched" where
  "dtrace_probe_lookup_match st p arg = (DTRACE_MATCH_DONE, dtpr_id (probe_heap st p))"

definition dtrace_probe_lookup :: "provider_ref \<Rightarrow> cstr option \<Rightarrow> cstr option \<Rightarrow> cstr option \<Rightarrow> dtrace_core \<Rightarrow> nat option" where
  "dtrace_probe_lookup prid md func name st =
     (let fsel = (\<lambda>s. if s \<noteq> None then match_string else match_nul);
          pkey = \<lparr>dtpk_prov = Some (dtpv_name (provider_heap st prid)), dtpk_pmatch = match_string,
            dtpk_mod = md, dtpk_mmatch = fsel md, dtpk_func = func, dtpk_fmatch = fsel func,
            dtpk_name = name, dtpk_nmatch = fsel name, dtpk_id = DTRACE_IDNONE\<rparr>
      in do {
        (match, ident) \<leftarrow> dtrace_match st pkey DTRACE_PRIV_ALL 0 0 (dtrace_probe_lookup_match st) 0;
        if match = 1 then Some ident else if match = 0 then Some 0 else None
      })"


section \<open>The probe table and the hashes agree\<close>

definition live :: "dtrace_core \<Rightarrow> probe_ref set" where
  "live st = {p. Some p \<in> set (dtrace_probes st)}"

definition indexed :: "(probe_ref \<Rightarrow> cstr) \<Rightarrow> dtrace_hash \<Rightarrow> probe_ref set \<Rightarrow> bool" where
  "indexed str h L \<longleftrightarrow> (\<exists>F. hash_inv str h F \<and> (\<forall>s. set (F s) = {p \<in> L. str p = s}))"

definition probe_inv :: "dtrace_core \<Rightarrow> bool" where
  "probe_inv st \<longleftrightarrow>
     (\<forall>i < length (dtrace_probes st). \<forall>p. dtrace_probes st ! i = Some p \<longrightarrow> dtpr_id (probe_heap st p) = i + 1) \<and>
     (\<forall>p \<in> live st. dtpr_id (probe_heap st p) \<le> dtrace_arena st) \<and>
     (\<forall>p \<in> live st. 0 \<notin> set (mod_of st p) \<and> 0 \<notin> set (func_of st p) \<and> 0 \<notin> set (name_of st p)) \<and>
     indexed (mod_of st) (dtrace_bymod st) (live st) \<and> indexed (func_of st) (dtrace_byfunc st) (live st) \<and>
     indexed (name_of st) (dtrace_byname st) (live st)"

lemma nth_live: "i < length (dtrace_probes st) \<Longrightarrow> dtrace_probes st ! i = Some p \<Longrightarrow> p \<in> live st"
  using nth_mem [of i "dtrace_probes st"] by (simp add: live_def)

lemma live_nth: "p \<in> live st \<Longrightarrow> \<exists>i < length (dtrace_probes st). dtrace_probes st ! i = Some p"
  by (auto simp: live_def in_set_conv_nth)

lemma hash_inv_cong:
  assumes "hash_inv str h F" "\<And>s p. p \<in> set (F s) \<Longrightarrow> str' p = str p \<and> dth_next h' p = dth_next h p \<and> dth_prev h' p = dth_prev h p"
    and "dth_tab h' = dth_tab h" "dth_size h' = dth_size h" "dth_mask h' = dth_mask h" "dth_nbuckets h' = dth_nbuckets h"
  shows "hash_inv str' h' F"
proof -
  have b: "bucket_inv str' h' F i b \<and> str' (dthb_chain b) = str (dthb_chain b)" if "bucket_inv str h F i b" for i b
  proof -
    have "dthb_chain b \<in> set (F (str (dthb_chain b)))"
      using that hd_in_set [of "F (str (dthb_chain b))"] by (simp add: bucket_inv_def Let_def)
    then have "str' (dthb_chain b) = str (dthb_chain b)" using assms(2) by blast
    moreover have "chain (dth_next h') (dth_prev h') None (F s) = chain (dth_next h) (dth_prev h) None (F s)" for s
      using assms(2) by (intro chain_frame) blast
    ultimately show ?thesis using that assms(5) by (simp add: bucket_inv_def Let_def)
  qed
  have "slot_inv str' h' F i bs" if "slot_inv str h F i bs" for i bs
  proof -
    have "bucket_keys str' bs = bucket_keys str bs" using that b by (auto simp: bucket_keys_def slot_inv_def)
    then show ?thesis using that b assms(5) by (auto simp: slot_inv_def)
  qed
  then show ?thesis using assms by (auto simp: hash_inv_def)
qed

lemma indexed_add:
  assumes "indexed str h L" "p \<notin> L" "\<And>q. q \<noteq> p \<Longrightarrow> str' q = str q"
  shows "\<exists>h'. dtrace_hash_add str' p (hash_zero p h) = Some h' \<and> indexed str' h' (insert p L)"
proof -
  obtain F where F: "hash_inv str h F" "\<And>s. set (F s) = {p \<in> L. str p = s}" using assms(1) by (auto simp: indexed_def)
  have "hash_inv str' (hash_zero p h) F"
    by (rule hash_inv_cong [OF F(1)]) (use F(2) assms(2,3) in \<open>auto simp: hash_zero_def\<close>)
  moreover have "p \<notin> set (F (str' p))" using F(2) assms(2) by auto
  moreover have "hash_fresh (hash_zero p h) p" by (simp add: hash_fresh_def hash_zero_def)
  ultimately obtain h' where h': "dtrace_hash_add str' p (hash_zero p h) = Some h'" "hash_inv str' h' (F(str' p := p # F (str' p)))"
    using probe_hash.add_law by blast
  have "str' q = str q" if "q \<in> L" for q using that assms(2,3) by metis
  then have "set ((F(str' p := p # F (str' p))) s) = {q \<in> insert p L. str' q = s}" for s
    using F(2) by (cases "s = str' p") auto
  then show ?thesis using h' by (auto simp: indexed_def)
qed

lemma indexed_remove:
  assumes "indexed str h L" "p \<in> L"
  shows "\<exists>h'. dtrace_hash_remove str p h = Some h' \<and> indexed str h' (L - {p})"
proof -
  obtain F where F: "hash_inv str h F" "\<And>s. set (F s) = {p \<in> L. str p = s}" using assms(1) by (auto simp: indexed_def)
  then have "p \<in> set (F (str p))" using assms(2) by simp
  then obtain h' where h': "dtrace_hash_remove str p h = Some h'" "hash_inv str h' (F(str p := remove1 p (F (str p))))"
    using probe_hash.remove_law F(1) by blast
  moreover have "distinct (F s)" for s using probe_hash.strings [OF F(1)] by blast
  ultimately have "set ((F(str p := remove1 p (F (str p)))) s) = {q \<in> L - {p}. str q = s}" for s
    using F(2) by (cases "s = str p") (auto simp: set_remove1_eq)
  then show ?thesis using h' by (auto simp: indexed_def)
qed

lemma indexed_cong:
  assumes "indexed str h L" "\<And>p. p \<in> L \<Longrightarrow> str' p = str p"
  shows "indexed str' h L"
proof -
  obtain F where F: "hash_inv str h F" "\<And>s. set (F s) = {p \<in> L. str p = s}" using assms(1) by (auto simp: indexed_def)
  have "hash_inv str' h F" by (rule hash_inv_cong [OF F(1)]) (use F(2) assms(2) in auto)
  moreover have "{p \<in> L. str p = s} = {p \<in> L. str' p = s}" for s using assms(2) by auto
  ultimately show ?thesis using F(2) unfolding indexed_def by metis
qed

lemma live_unique:
  assumes "probe_inv st" "i < length (dtrace_probes st)" "dtrace_probes st ! i = Some p"
  shows "live (st\<lparr>dtrace_probes := (dtrace_probes st)[i := None]\<rparr>) = live st - {p}"
proof -
  have "j = i" if "j < length (dtrace_probes st)" "dtrace_probes st ! j = Some p" for j
  proof -
    have "dtpr_id (probe_heap st p) = j + 1" "dtpr_id (probe_heap st p) = i + 1"
      using that assms unfolding probe_inv_def by blast+
    then show ?thesis by simp
  qed
  then have "(\<exists>j < length (dtrace_probes st). (dtrace_probes st)[i := None] ! j = Some q) \<longleftrightarrow>
      (\<exists>j < length (dtrace_probes st). dtrace_probes st ! j = Some q) \<and> q \<noteq> p" for q
    using assms(2,3) by (metis nth_list_update_eq nth_list_update_neq option.discI option.inject)
  then show ?thesis by (simp add: live_def in_set_conv_nth set_eq_iff)
qed

lemma probe_unlink_inv:
  assumes "probe_inv st" "i < length (dtrace_probes st)" "dtrace_probes st ! i = Some p"
  shows "\<exists>st'. probe_unlink i p st = Some st' \<and> probe_inv st' \<and> probe_heap st' = probe_heap st \<and>
    dtrace_probes st' = (dtrace_probes st)[i := None] \<and> provider_heap st' = provider_heap st \<and>
    dtrace_provider_list st' = dtrace_provider_list st"
proof -
  let ?L = "live st - {p}"
  have p: "p \<in> live st" using assms(2,3) by (rule nth_live)
  obtain hm where hm: "dtrace_hash_remove (mod_of st) p (dtrace_bymod st) = Some hm" "indexed (mod_of st) hm ?L"
    using indexed_remove [OF _ p] assms(1) unfolding probe_inv_def by blast
  obtain hf where hf: "dtrace_hash_remove (func_of st) p (dtrace_byfunc st) = Some hf" "indexed (func_of st) hf ?L"
    using indexed_remove [OF _ p] assms(1) unfolding probe_inv_def by blast
  obtain hn where hn: "dtrace_hash_remove (name_of st) p (dtrace_byname st) = Some hn" "indexed (name_of st) hn ?L"
    using indexed_remove [OF _ p] assms(1) unfolding probe_inv_def by blast
  define st' where "st' = st\<lparr>dtrace_probes := (dtrace_probes st)[i := None],
    dtrace_bymod := hm, dtrace_byfunc := hf, dtrace_byname := hn\<rparr>"
  have "live st' = ?L" using live_unique [OF assms] by (simp add: st'_def live_def)
  moreover have "dtpr_id (probe_heap st q) = j + 1"
    if "j < length (dtrace_probes st)" "(dtrace_probes st)[i := None] ! j = Some q" for j q
    using that assms(1) by (cases "j = i") (auto simp: probe_inv_def)
  ultimately have "probe_inv st'" using hm hf hn assms(1) by (simp add: probe_inv_def st'_def)
  moreover have "probe_unlink i p st = Some st'" using hm hf hn by (simp add: probe_unlink_def st'_def)
  ultimately show ?thesis by (simp add: st'_def)
qed

definition unlink_sel :: "(dtrace_probe \<Rightarrow> bool) \<Rightarrow> dtrace_core \<Rightarrow> probe_ref option \<Rightarrow> probe_ref option" where
  "unlink_sel sel st x = (case x of None \<Rightarrow> None | Some p \<Rightarrow> if sel (probe_heap st p) then None else Some p)"

lemma unlink_loop_inv:
  assumes "probe_inv st" "i + n = length (dtrace_probes st)"
  shows "\<exists>st'. unlink_loop sel n i st = Some st' \<and> probe_inv st' \<and> probe_heap st' = probe_heap st \<and>
    dtrace_probes st' = take i (dtrace_probes st) @ map (unlink_sel sel st) (drop i (dtrace_probes st)) \<and>
    provider_heap st' = provider_heap st \<and> dtrace_provider_list st' = dtrace_provider_list st"
  using assms
proof (induction n arbitrary: i st)
  case (Suc n)
  have i: "i < length (dtrace_probes st)" using Suc.prems(2) by simp
  show ?case
  proof (cases "\<exists>p. dtrace_probes st ! i = Some p \<and> sel (probe_heap st p)")
    case True
    then obtain p where p: "dtrace_probes st ! i = Some p" "sel (probe_heap st p)" by blast
    obtain st1 where st1: "probe_unlink i p st = Some st1" "probe_inv st1" "probe_heap st1 = probe_heap st"
      "dtrace_probes st1 = (dtrace_probes st)[i := None]" "provider_heap st1 = provider_heap st"
      "dtrace_provider_list st1 = dtrace_provider_list st"
      using probe_unlink_inv [OF Suc.prems(1) i p(1)] by blast
    have "Suc i + n = length (dtrace_probes st1)" using Suc.prems(2) st1(4) by simp
    have "unlink_sel sel st1 = unlink_sel sel st" by (simp add: unlink_sel_def st1(3) fun_eq_iff split: option.split)
    moreover have "unlink_sel sel st (dtrace_probes st ! i) = None" using p by (simp add: unlink_sel_def)
    moreover note Suc.IH [OF st1(2) \<open>Suc i + n = length (dtrace_probes st1)\<close>]
    ultimately show ?thesis
      using st1 p i by (simp add: take_Suc_conv_app_nth Cons_nth_drop_Suc [symmetric])
  next
    case False
    then have "unlink_loop sel (Suc n) i st = unlink_loop sel n (Suc i) st"
      and "unlink_sel sel st (dtrace_probes st ! i) = dtrace_probes st ! i"
      by (auto simp: unlink_sel_def split: option.split)
    then show ?thesis
      using Suc.IH [OF Suc.prems(1), of "Suc i"] Suc.prems(2) i
      by (simp add: take_Suc_conv_app_nth Cons_nth_drop_Suc [symmetric])
  qed
qed simp


lemma unlink_sel_live:
  assumes "dtrace_probes st' = map (unlink_sel sel st) (dtrace_probes st)"
  shows "live st' = {p \<in> live st. \<not> sel (probe_heap st p)}"
proof -
  have "Some p = unlink_sel sel st x \<longleftrightarrow> x = Some p \<and> \<not> sel (probe_heap st p)" for x p
    by (auto simp: unlink_sel_def split: option.splits)
  then show ?thesis using assms unfolding live_def by (simp add: image_iff)
qed

lemma probe_room:
  assumes "i < length (probe_room i ps)" "i < length ps \<Longrightarrow> ps ! i = None"
  shows "probe_room i ps ! i = None"
    and "j < length (probe_room i ps) \<Longrightarrow> probe_room i ps ! j = Some q \<longleftrightarrow> j < length ps \<and> ps ! j = Some q"
    and "Some q \<in> set (probe_room i ps) \<longleftrightarrow> Some q \<in> set ps"
  using assms by (cases "i < length ps"; auto simp: probe_room_def grow_probes_def nth_append split: if_splits)+

lemma length_probe_room:
  "i < length (probe_room i ps) \<longleftrightarrow> i < max 1 (2 * length ps)"
  by (cases ps) (auto simp: probe_room_def grow_probes_def)

lemma probes_update_set:
  assumes "i < length ps" "ps ! i = None"
  shows "Some q \<in> set (ps[i := Some p]) \<longleftrightarrow> q = p \<or> Some q \<in> set ps"
proof -
  have "Some q \<in> set (ps[i := Some p])" if q: "Some q \<in> set ps"
  proof -
    obtain j where j: "j < length ps" "ps ! j = Some q" using q unfolding in_set_conv_nth by blast
    then have "ps[i := Some p] ! j = Some q" using assms by (cases "j = i") auto
    moreover have "ps[i := Some p] ! j \<in> set (ps[i := Some p])" using j(1) by (intro nth_mem) simp
    ultimately show ?thesis by simp
  qed
  then show ?thesis
    using set_update_memI [OF assms(1), of "Some p"] set_update_subset_insert [of ps i "Some p"] by blast
qed

text \<open>The next identifier is free in the table.\<close>

lemma arena_free:
  assumes "probe_inv st" "j = dtrace_arena st" "j < length (dtrace_probes st)"
  shows "dtrace_probes st ! j = None"
proof (rule ccontr)
  assume "dtrace_probes st ! j \<noteq> None"
  then obtain p where p: "dtrace_probes st ! j = Some p" by blast
  have "p \<in> live st" using assms(3) p by (rule nth_live)
  then have "dtpr_id (probe_heap st p) \<le> j" using assms(1,2) by (simp add: probe_inv_def)
  moreover have "dtpr_id (probe_heap st p) = j + 1" using assms(1,3) p by (simp add: probe_inv_def)
  ultimately show False by simp
qed

lemma probe_insert_inv:
  assumes inv: "probe_inv st" and p: "p \<notin> live st" and ident: "ident = dtrace_arena st + 1"
    and fits: "dtrace_arena st < max 1 (2 * length (dtrace_probes st))"
    and hm: "dtrace_hash_add (mod_of st1) p (dtrace_bymod st1) = Some hm" "indexed (mod_of st1) hm (insert p (live st))"
    and hf: "dtrace_hash_add (func_of st1) p (dtrace_byfunc st1) = Some hf" "indexed (func_of st1) hf (insert p (live st))"
    and hn: "dtrace_hash_add (name_of st1) p (dtrace_byname st1) = Some hn" "indexed (name_of st1) hn (insert p (live st))"
    and st1: "dtrace_probes st1 = dtrace_probes st" "dtrace_arena st1 = ident" "dtpr_id (probe_heap st1 p) = ident"
      "\<And>q. q \<noteq> p \<Longrightarrow> probe_heap st1 q = probe_heap st q"
      "0 \<notin> set (mod_of st1 p) \<and> 0 \<notin> set (func_of st1 p) \<and> 0 \<notin> set (name_of st1 p)"
  shows "\<exists>ps. probe_insert ident p st1 = Some (st1\<lparr>dtrace_bymod := hm, dtrace_byfunc := hf, dtrace_byname := hn,
      dtrace_probes := ps\<rparr>) \<and> ident \<le> length ps \<and> ps ! (ident - 1) = Some p \<and>
      probe_inv (st1\<lparr>dtrace_bymod := hm, dtrace_byfunc := hf, dtrace_byname := hn, dtrace_probes := ps\<rparr>) \<and>
      (\<forall>q. Some q \<in> set ps \<longleftrightarrow> q = p \<or> q \<in> live st)"
proof -
  define probes where "probes = probe_room (ident - 1) (dtrace_probes st)"
  let ?ps = "probes[ident - 1 := Some p]"
  let ?st = "st1\<lparr>dtrace_bymod := hm, dtrace_byfunc := hf, dtrace_byname := hn, dtrace_probes := ?ps\<rparr>"
  have arena: "ident - 1 < length (probe_room (ident - 1) (dtrace_probes st))"
    using fits ident length_probe_room [of "ident - 1"] by simp
  have free: "dtrace_probes st ! (ident - 1) = None" if "ident - 1 < length (dtrace_probes st)"
    using arena_free [OF inv _ that] ident by simp
  note room = arena [folded probes_def] probe_room [OF arena free, folded probes_def]
  have set_ps: "Some q \<in> set ?ps \<longleftrightarrow> q = p \<or> q \<in> live st" for q
    using probes_update_set [OF room(1,2)] room(4) by (simp add: live_def)
  then have live: "live ?st = insert p (live st)" by (auto simp: live_def)
  have ids: "dtpr_id (probe_heap st1 q) = j + 1" if "j < length probes" "?ps ! j = Some q" for j q
  proof (cases "j = ident - 1")
    case True
    then show ?thesis using that st1(3) ident by simp
  next
    case False
    then have old_q: "j < length (dtrace_probes st)" "dtrace_probes st ! j = Some q" using that room(3) by auto
    then have "q \<in> live st" by (rule nth_live)
    then have "q \<noteq> p" using p by auto
    then show ?thesis using old_q inv st1(4) by (simp add: probe_inv_def)
  qed
  have old_ok: "dtpr_id (probe_heap st1 q) \<le> ident \<and> 0 \<notin> set (mod_of st1 q) \<and> 0 \<notin> set (func_of st1 q) \<and> 0 \<notin> set (name_of st1 q)"
    if "q \<in> live st" for q
  proof -
    have "q \<noteq> p" using that p by auto
    then have "probe_heap st1 q = probe_heap st q" by (rule st1(4))
    then show ?thesis using that inv ident unfolding probe_inv_def by (simp add: le_SucI)
  qed
  have "probe_inv ?st"
    unfolding probe_inv_def live using ids old_ok hm(2) hf(2) hn(2) st1(2,3,5) room(1) ident by simp
  moreover have "probe_insert ident p st1 = Some ?st"
    unfolding probe_insert_def hm(1) hf(1) hn(1) st1(1) probes_def [symmetric] Let_def using room(1,2) by simp
  ultimately show ?thesis using set_ps room(1) ident by (intro exI [of _ ?ps]) simp
qed

definition cstring_opt :: "cstr option \<Rightarrow> bool" where
  "cstring_opt s = (case s of None \<Rightarrow> True | Some s \<Rightarrow> 0 \<notin> set s)"

lemma probe_create_inv:
  assumes inv: "probe_inv st" and p: "p \<notin> live st" and room: "dtrace_arena st < INT_MAX"
    and fits: "dtrace_arena st < max 1 (2 * length (dtrace_probes st))"
    and names: "cstring_opt md" "cstring_opt func" "cstring_opt name"
  shows "\<exists>st'. dtrace_probe_create prov md func name aframes arg (Some p) st = Some (dtrace_arena st + 1, st') \<and>
    probe_inv st' \<and> live st' = insert p (live st) \<and> dtrace_probe_lookup_id (dtrace_arena st + 1) st' = Some p \<and>
    dtrace_arena st' = dtrace_arena st + 1 \<and>
    (\<forall>q. q \<noteq> p \<longrightarrow> probe_heap st' q = probe_heap st q) \<and>
    mod_of st' p = dtrace_strdup md \<and> func_of st' p = dtrace_strdup func \<and> name_of st' p = dtrace_strdup name \<and>
    dtpr_provider (probe_heap st' p) = prov \<and> provider_heap st' = provider_heap st \<and>
    dtrace_provider_list st' = dtrace_provider_list st \<and> dtpr_ecb (probe_heap st' p) = None \<and>
    dtrace_opens st' = dtrace_opens st \<and> dta_necbs st' = dta_necbs st"
proof -
  let ?id = "dtrace_arena st + 1"
  define st1 where "st1 = probe_init prov md func name aframes arg ?id p (st\<lparr>dtrace_arena := ?id\<rparr>)"
  have st1: "dtrace_bymod st1 = hash_zero p (dtrace_bymod st)" "dtrace_byfunc st1 = hash_zero p (dtrace_byfunc st)"
    "dtrace_byname st1 = hash_zero p (dtrace_byname st)" "dtrace_probes st1 = dtrace_probes st"
    "provider_heap st1 = provider_heap st" "\<And>q. q \<noteq> p \<Longrightarrow> probe_heap st1 q = probe_heap st q"
    "mod_of st1 p = dtrace_strdup md" "func_of st1 p = dtrace_strdup func" "name_of st1 p = dtrace_strdup name"
    "dtpr_provider (probe_heap st1 p) = prov" "dtpr_id (probe_heap st1 p) = ?id" "dtrace_arena st1 = ?id"
    "dtrace_provider_list st1 = dtrace_provider_list st" "dtpr_ecb (probe_heap st1 p) = None"
    "dtrace_opens st1 = dtrace_opens st" "dta_necbs st1 = dta_necbs st"
    by (simp_all add: st1_def probe_init_def Let_def)
  let ?L = "insert p (live st)"
  have ind: "indexed (mod_of st) (dtrace_bymod st) (live st)" "indexed (func_of st) (dtrace_byfunc st) (live st)"
    "indexed (name_of st) (dtrace_byname st) (live st)"
    using inv by (simp_all add: probe_inv_def)
  have str: "\<And>q. q \<noteq> p \<Longrightarrow> mod_of st1 q = mod_of st q" "\<And>q. q \<noteq> p \<Longrightarrow> func_of st1 q = func_of st q"
    "\<And>q. q \<noteq> p \<Longrightarrow> name_of st1 q = name_of st q"
    using st1(6) by simp_all
  obtain hm where hm: "dtrace_hash_add (mod_of st1) p (dtrace_bymod st1) = Some hm" "indexed (mod_of st1) hm ?L"
    using indexed_add [OF ind(1) p str(1)] unfolding st1(1) [symmetric] by blast
  obtain hf where hf: "dtrace_hash_add (func_of st1) p (dtrace_byfunc st1) = Some hf" "indexed (func_of st1) hf ?L"
    using indexed_add [OF ind(2) p str(2)] unfolding st1(2) [symmetric] by blast
  obtain hn where hn: "dtrace_hash_add (name_of st1) p (dtrace_byname st1) = Some hn" "indexed (name_of st1) hn ?L"
    using indexed_add [OF ind(3) p str(3)] unfolding st1(3) [symmetric] by blast
  have "0 \<notin> set (mod_of st1 p) \<and> 0 \<notin> set (func_of st1 p) \<and> 0 \<notin> set (name_of st1 p)"
    using names by (simp add: st1 dtrace_strdup_def cstring_opt_def split: option.splits)
  then obtain ps where ps: "probe_insert ?id p st1 = Some (st1\<lparr>dtrace_bymod := hm, dtrace_byfunc := hf, dtrace_byname := hn,
      dtrace_probes := ps\<rparr>)" "?id \<le> length ps" "ps ! (?id - 1) = Some p"
      "probe_inv (st1\<lparr>dtrace_bymod := hm, dtrace_byfunc := hf, dtrace_byname := hn, dtrace_probes := ps\<rparr>)"
      "\<forall>q. Some q \<in> set ps \<longleftrightarrow> q = p \<or> q \<in> live st"
    using probe_insert_inv [OF inv p refl fits hm hf hn st1(4,12,11,6)] by blast
  let ?st = "st1\<lparr>dtrace_bymod := hm, dtrace_byfunc := hf, dtrace_byname := hn, dtrace_probes := ps\<rparr>"
  have "dtrace_probe_create prov md func name aframes arg (Some p) st = Some (?id, ?st)"
    using room ps(1) unfolding st1_def by (simp add: dtrace_probe_create_def vmem_alloc_def)
  moreover have "live ?st = ?L" using ps(5) by (auto simp: live_def)
  moreover have "dtrace_probe_lookup_id ?id ?st = Some p" using ps(2,3) by (simp add: dtrace_probe_lookup_id_def)
  ultimately show ?thesis using ps(4) st1 by (intro exI [of _ ?st]) simp
qed


text \<open>Without room for the next identifier in the table, even when it is doubled, creation fails the assertion.\<close>

lemma probe_create_full:
  assumes "\<not> dtrace_arena st < max 1 (2 * length (dtrace_probes st))"
  shows "dtrace_probe_create prov md func name aframes arg (Some p) st = None"
proof -
  have "\<not> dtrace_arena st < length (probe_room (dtrace_arena st) (dtrace_probes st))"
    using assms unfolding length_probe_room .
  then have "probe_insert (dtrace_arena st + 1) p st1 = None" if "dtrace_probes st1 = dtrace_probes st" for st1
    using that by (auto simp: probe_insert_def Let_def bind_eq_None_conv)
  then show ?thesis by (auto simp: dtrace_probe_create_def vmem_alloc_def probe_init_def Let_def)
qed

lemma condense_inv:
  assumes "probe_inv st" "\<not> dtps_enable_nullop (provider_heap st prov)"
  shows "\<exists>st'. dtrace_condense prov st = Some st' \<and> probe_inv st' \<and>
    live st' = {p \<in> live st. \<not> (dtpr_provider (probe_heap st p) = prov \<and> dtpr_ecb (probe_heap st p) = None)} \<and>
    probe_heap st' = probe_heap st \<and> provider_heap st' = provider_heap st \<and>
    dtrace_provider_list st' = dtrace_provider_list st"
proof -
  let ?sel = "\<lambda>pr. dtpr_provider pr = prov \<and> dtpr_ecb pr = None"
  obtain st' where st': "unlink_loop ?sel (length (dtrace_probes st)) 0 st = Some st'" "probe_inv st'"
    "probe_heap st' = probe_heap st" "dtrace_probes st' = map (unlink_sel ?sel st) (dtrace_probes st)"
    "provider_heap st' = provider_heap st" "dtrace_provider_list st' = dtrace_provider_list st"
    using unlink_loop_inv [OF assms(1), of 0 "length (dtrace_probes st)" ?sel] by auto
  then show ?thesis using assms(2) unlink_sel_live [OF st'(4)] by (simp add: dtrace_condense_def)
qed

definition unregister_busy :: "provider_ref \<Rightarrow> dtrace_core \<Rightarrow> bool" where
  "unregister_busy pv st \<longleftrightarrow>
     dtps_enable_nullop (provider_heap st pv) \<and> tl (dtrace_provider_list st) \<noteq> [] \<or>
     \<not> dtpv_defunct (provider_heap st pv) \<and> (dtrace_opens st \<noteq> 0 \<or> (\<exists>n > 0. dta_necbs st = Some n)) \<or>
     (\<exists>p \<in> live st. dtpr_provider (probe_heap st p) = pv \<and> dtpr_ecb (probe_heap st p) \<noteq> None)"

lemma enabled_probe_live:
  "list_ex (enabled_probe pv st) (dtrace_probes st) \<longleftrightarrow>
     (\<exists>p \<in> live st. dtpr_provider (probe_heap st p) = pv \<and> dtpr_ecb (probe_heap st p) \<noteq> None)"
  unfolding list_ex_iff enabled_probe_def live_def by (auto split: option.splits intro: bexI [of _ "Some _"])

lemma unregister_cases:
  assumes "pv \<in> set (dtrace_provider_list st)"
    "dtps_enable_nullop (provider_heap st pv) \<Longrightarrow> hd (dtrace_provider_list st) = pv"
  shows "dtrace_unregister pv st =
    (if unregister_busy pv st then Some (EBUSY, st)
     else do {
       st \<leftarrow> unlink_loop (\<lambda>pr. dtpr_provider pr = pv) (length (dtrace_probes st)) 0 st;
       if pv \<notin> set (dtrace_provider_list st) then None
       else Some (0, st\<lparr>dtrace_provider_list := remove1 pv (dtrace_provider_list st)\<rparr>)
     })"
proof -
  have "(case dta_necbs st of None \<Rightarrow> False | Some n \<Rightarrow> n > 0) \<longleftrightarrow> (\<exists>n > 0. dta_necbs st = Some n)"
    by (cases "dta_necbs st") auto
  moreover have "(dtps_enable_nullop (provider_heap st pv) \<and>
      (dtrace_provider_list st = [] \<or> hd (dtrace_provider_list st) \<noteq> pv)) = False"
    using assms by auto
  moreover have "(if a \<or> b then x else y) = (if a then x else if b then x else y)" for a b and x y :: "(nat \<times> dtrace_core) option"
    by simp
  ultimately show ?thesis
    unfolding unregister_busy_def dtrace_unregister_def Let_def enabled_probe_live by (simp only: if_False)
qed

lemma unregister_inv:
  assumes "probe_inv st" "pv \<in> set (dtrace_provider_list st)"
    "dtps_enable_nullop (provider_heap st pv) \<Longrightarrow> hd (dtrace_provider_list st) = pv" "\<not> unregister_busy pv st"
  shows "\<exists>st'. dtrace_unregister pv st = Some (0, st') \<and> probe_inv st' \<and>
      live st' = {p \<in> live st. dtpr_provider (probe_heap st p) \<noteq> pv} \<and>
      probe_heap st' = probe_heap st \<and> provider_heap st' = provider_heap st \<and>
      dtrace_provider_list st' = remove1 pv (dtrace_provider_list st)"
proof -
  let ?sel = "\<lambda>pr. dtpr_provider pr = pv"
  obtain st' where st': "unlink_loop ?sel (length (dtrace_probes st)) 0 st = Some st'" "probe_inv st'"
    "probe_heap st' = probe_heap st" "dtrace_probes st' = map (unlink_sel ?sel st) (dtrace_probes st)"
    "provider_heap st' = provider_heap st" "dtrace_provider_list st' = dtrace_provider_list st"
    using unlink_loop_inv [OF assms(1), of 0 "length (dtrace_probes st)" ?sel] by auto
  let ?st = "st'\<lparr>dtrace_provider_list := remove1 pv (dtrace_provider_list st)\<rparr>"
  have "dtrace_unregister pv st = Some (0, ?st)"
    using st' assms(4) by (subst unregister_cases [OF assms(2,3)]) (simp_all add: assms(2))
  moreover have "probe_inv ?st" "live ?st = live st'" using st'(2) by (simp_all add: probe_inv_def live_def)
  ultimately show ?thesis using st' unlink_sel_live [OF st'(4)] by simp
qed

end
