(* ===== verification/DT_Registry.thy ===== *)
theory DT_Registry
  imports DT_Probe
begin

text \<open>
  The life of the probe table: the states that attaching the driver and any sequence of registrations,
  probe creations, removals and enablings reach, the invariant they keep, and what the search functions
  return in them.
\<close>

section \<open>Reachable states\<close>

text \<open>The tables that \<^verbatim>\<open>dtrace_attach\<close> sets up, over any contents of fresh memory.\<close>

definition core_init :: "(probe_ref \<Rightarrow> dtrace_probe) \<Rightarrow> (provider_ref \<Rightarrow> dtrace_provider) \<Rightarrow> dtrace_core" where
  "core_init ph pvh =
     \<lparr>probe_heap = ph, provider_heap = pvh, dtrace_probes = [], dtrace_arena = 0, dtrace_probegen = 0,
      dtrace_bymod = dtrace_hash_create, dtrace_byfunc = dtrace_hash_create, dtrace_byname = dtrace_hash_create,
      dtrace_provider_list = [], dtrace_opens = 0, dta_necbs = None, dta_enabling = False\<rparr>"

text \<open>
  The last two rules are the rest of the driver: enabling code sets \<^verbatim>\<open>dtpr_ecb\<close>, opening the device and
  anonymous enablings change the counters. The memory of a new probe is not that of a live one. A creation
  without memory for the probe is not among these steps but the last rule of \<open>core_reachable\<close>.
\<close>

inductive core_step :: "dtrace_core \<Rightarrow> dtrace_core \<Rightarrow> bool" where
  register: "dtrace_register name pap priv cr pops idp pv st = Some (rc, st') \<Longrightarrow> cstring_opt name \<Longrightarrow>
    pv \<notin> set (dtrace_provider_list st) \<Longrightarrow> core_step st st'"
| create: "dtrace_probe_create prov md func name aframes arg (Some p) st = Some (ident, st') \<Longrightarrow> p \<notin> live st \<Longrightarrow>
    prov \<in> set (dtrace_provider_list st) \<Longrightarrow>
    cstring_opt md \<Longrightarrow> cstring_opt func \<Longrightarrow> cstring_opt name \<Longrightarrow> core_step st st'"
| condense: "dtrace_condense prov st = Some st' \<Longrightarrow> core_step st st'"
| unregister: "dtrace_unregister pv st = Some (rc, st') \<Longrightarrow> core_step st st'"
| invalidate: "dtrace_invalidate pv st = Some st' \<Longrightarrow> core_step st st'"
| ecb: "core_step st (st\<lparr>probe_heap := (probe_heap st)(p := (probe_heap st p)\<lparr>dtpr_ecb := e\<rparr>)\<rparr>)"
| opens: "core_step st (st\<lparr>dtrace_opens := n, dta_necbs := k, dta_enabling := b\<rparr>)"

text \<open>
  \<open>core_reachable k st\<close>: the driver reaches \<open>st\<close> with \<open>k\<close> identifiers lost. An identifier is lost when the
  allocation of a new probe fails after \<^verbatim>\<open>dtrace_probe_create\<close> has taken its identifier from the arena.
\<close>

inductive core_reachable :: "nat \<Rightarrow> dtrace_core \<Rightarrow> bool" where
  attach: "core_reachable 0 (core_init ph pvh)"
| step: "core_reachable k st \<Longrightarrow> core_step st st' \<Longrightarrow> core_reachable k st'"
| lost: "core_reachable k st \<Longrightarrow> dtrace_probe_create prov md func name aframes arg None st = Some (ident, st') \<Longrightarrow>
    core_reachable (k + 1) st'"

inductive_cases core_stepE: "core_step st st'"

text \<open>
  Besides \<open>probe_inv\<close>: every live probe has a registered provider, a provider is on the chain once, and
  the names of registered providers are C strings.
\<close>

definition core_inv :: "dtrace_core \<Rightarrow> bool" where
  "core_inv st \<longleftrightarrow> probe_inv st \<and> distinct (dtrace_provider_list st) \<and>
     (\<forall>p \<in> live st. dtpr_provider (probe_heap st p) \<in> set (dtrace_provider_list st)) \<and>
     (\<forall>pv \<in> set (dtrace_provider_list st). 0 \<notin> set (dtpv_name (provider_heap st pv)))"

lemma probe_inv_init: "probe_inv (core_init ph pvh)"
proof -
  have "indexed str dtrace_hash_create {}" for str
    unfolding indexed_def by (intro exI [of _ "\<lambda>s. []"]) (simp add: hash_create_inv)
  then show ?thesis by (simp add: probe_inv_def core_init_def live_def)
qed

lemma probe_inv_frame:
  assumes "probe_inv st" "dtrace_probes st' = dtrace_probes st" "dtrace_arena st' = dtrace_arena st"
    "dtrace_bymod st' = dtrace_bymod st" "dtrace_byfunc st' = dtrace_byfunc st" "dtrace_byname st' = dtrace_byname st"
    "\<And>p. dtpr_id (probe_heap st' p) = dtpr_id (probe_heap st p)" "\<And>p. mod_of st' p = mod_of st p"
    "\<And>p. func_of st' p = func_of st p" "\<And>p. name_of st' p = name_of st p"
  shows "probe_inv st'" "live st' = live st"
  using assms by (simp_all add: probe_inv_def live_def)

lemma core_inv_register:
  assumes "core_inv st" "dtrace_register name pap priv cr pops idp pv st = Some (rc, st')" "cstring_opt name"
    "pv \<notin> set (dtrace_provider_list st)"
  shows "core_inv st'"
proof (cases "register_check name pap priv pops idp = 0")
  case True
  then obtain nm where name: "name = Some nm" by (cases name) (simp_all add: register_check_def EINVAL_def)
  let ?pvs = "register_link (dtps_own (the pops)) pv (dtrace_provider_list st)"
  have st': "dtrace_provider_list st' = ?pvs" "probe_heap st' = probe_heap st" "dtpv_name (provider_heap st' pv) = nm"
    "\<And>q. q \<noteq> pv \<Longrightarrow> provider_heap st' q = provider_heap st q" "live st' = live st"
    using assms(2) True name by (auto simp: dtrace_register_def Let_def live_def split: if_splits)
  have inv: "probe_inv st" using assms(1) by (simp add: core_inv_def)
  obtain pvh where "st' = st\<lparr>provider_heap := pvh, dtrace_provider_list := ?pvs\<rparr>"
    using assms(2) True unfolding dtrace_register_def Let_def by (metis (no_types) option.inject option.discI prod.inject)
  then have "probe_inv st'" by (intro probe_inv_frame(1) [OF inv]) simp_all
  moreover have pvs: "distinct ?pvs \<and> set ?pvs = insert pv (set (dtrace_provider_list st))"
    using assms(1,4) by (cases "dtrace_provider_list st") (auto simp: register_link_def core_inv_def)
  moreover have "0 \<notin> set (dtpv_name (provider_heap st' q))" if "q \<in> set ?pvs" for q
    using that pvs assms(1,3) st'(3,4) name by (cases "q = pv") (simp_all add: core_inv_def cstring_opt_def)
  ultimately show ?thesis using assms(1) st'(1,2,5) unfolding core_inv_def by simp
next
  case False
  then show ?thesis using assms(1,2) by (simp add: dtrace_register_def Let_def)
qed

lemma core_inv_create:
  assumes "core_inv st" "dtrace_probe_create prov md func name aframes arg (Some p) st = Some (ident, st')" "p \<notin> live st"
    "prov \<in> set (dtrace_provider_list st)" "cstring_opt md" "cstring_opt func" "cstring_opt name"
  shows "core_inv st'"
proof -
  have room: "dtrace_arena st < INT_MAX"
    using assms(2) by (auto simp: dtrace_probe_create_def vmem_alloc_def intro: ccontr split: if_splits)
  have fits: "dtrace_arena st < max 1 (2 * length (dtrace_probes st))"
    using assms(2) probe_create_full [of st prov md func name aframes arg p] by (cases "dtrace_arena st < max 1 (2 * length (dtrace_probes st))") auto
  obtain st1 where st1: "dtrace_probe_create prov md func name aframes arg (Some p) st = Some (dtrace_arena st + 1, st1)"
    "probe_inv st1" "live st1 = insert p (live st)" "\<forall>q. q \<noteq> p \<longrightarrow> probe_heap st1 q = probe_heap st q"
    "dtpr_provider (probe_heap st1 p) = prov" "provider_heap st1 = provider_heap st"
    "dtrace_provider_list st1 = dtrace_provider_list st"
    using probe_create_inv [OF _ assms(3) room fits assms(5-7), of prov aframes arg] assms(1) unfolding core_inv_def by blast
  have "st' = st1" using st1(1) assms(2) by simp
  moreover have "dtpr_provider (probe_heap st1 q) \<in> set (dtrace_provider_list st)" if q: "q \<in> live st1" for q
    using q st1(3-5) assms(1,4) by (cases "q = p") (simp_all add: core_inv_def)
  ultimately show ?thesis using st1(2,6,7) assms(1) by (simp add: core_inv_def)
qed

lemma unregister_on_chain:
  assumes "probe_inv st" "dtrace_unregister pv st = Some (rc, st')" "rc = 0"
  shows "pv \<in> set (dtrace_provider_list st)"
    "dtps_enable_nullop (provider_heap st pv) \<Longrightarrow> hd (dtrace_provider_list st) = pv"
proof -
  obtain st1 where "unlink_loop (\<lambda>pr. dtpr_provider pr = pv) (length (dtrace_probes st)) 0 st = Some st1"
    "dtrace_provider_list st1 = dtrace_provider_list st"
    using unlink_loop_inv [OF assms(1), of 0 "length (dtrace_probes st)"] by auto
  then show "pv \<in> set (dtrace_provider_list st)"
    using assms(2,3) by (auto simp: dtrace_unregister_def Let_def EBUSY_def split: if_splits)
  show "dtps_enable_nullop (provider_heap st pv) \<Longrightarrow> hd (dtrace_provider_list st) = pv"
    using assms(2) by (auto simp: dtrace_unregister_def Let_def split: if_splits)
qed

lemma core_inv_unregister:
  assumes "core_inv st" "dtrace_unregister pv st = Some (rc, st')"
  shows "core_inv st'"
proof (cases "rc = 0")
  case True
  have pv: "pv \<in> set (dtrace_provider_list st)" "dtps_enable_nullop (provider_heap st pv) \<Longrightarrow> hd (dtrace_provider_list st) = pv"
    using unregister_on_chain [OF _ assms(2)] True assms(1) by (auto simp: core_inv_def)
  then have "\<not> unregister_busy pv st"
    using assms(2) True by (subst (asm) unregister_cases [OF pv]) (auto simp: EBUSY_def)
  then obtain st1 where st1: "dtrace_unregister pv st = Some (0, st1)" "probe_inv st1"
    "live st1 = {p \<in> live st. dtpr_provider (probe_heap st p) \<noteq> pv}" "probe_heap st1 = probe_heap st"
    "provider_heap st1 = provider_heap st" "dtrace_provider_list st1 = remove1 pv (dtrace_provider_list st)"
    using unregister_inv [OF _ pv] assms(1) unfolding core_inv_def by blast
  then have "st' = st1" using assms(2) by simp
  then show ?thesis using st1(2-6) assms(1) by (simp add: core_inv_def)
next
  case False
  then have "st' = st" using assms(2)
    by (auto simp: dtrace_unregister_def Let_def bind_eq_Some_conv split: if_splits)
  then show ?thesis using assms(1) by simp
qed

lemma core_inv_condense:
  assumes "core_inv st" "dtrace_condense prov st = Some st'"
  shows "core_inv st'"
proof -
  have "\<not> dtps_enable_nullop (provider_heap st prov)" using assms(2) by (auto simp: dtrace_condense_def)
  then obtain st1 where st1: "dtrace_condense prov st = Some st1" "probe_inv st1"
    "live st1 = {p \<in> live st. \<not> (dtpr_provider (probe_heap st p) = prov \<and> dtpr_ecb (probe_heap st p) = None)}"
    "probe_heap st1 = probe_heap st" "provider_heap st1 = provider_heap st"
    "dtrace_provider_list st1 = dtrace_provider_list st"
    using condense_inv assms(1) unfolding core_inv_def by blast
  have "st' = st1" using st1(1) assms(2) by simp
  then show ?thesis using st1(2-6) assms(1) unfolding core_inv_def by simp
qed

lemma core_inv_frame:
  assumes "core_inv st" "dtrace_probes st' = dtrace_probes st" "dtrace_arena st' = dtrace_arena st"
    "dtrace_bymod st' = dtrace_bymod st" "dtrace_byfunc st' = dtrace_byfunc st" "dtrace_byname st' = dtrace_byname st"
    "\<And>p. dtpr_id (probe_heap st' p) = dtpr_id (probe_heap st p)" "\<And>p. mod_of st' p = mod_of st p"
    "\<And>p. func_of st' p = func_of st p" "\<And>p. name_of st' p = name_of st p"
    "\<And>p. dtpr_provider (probe_heap st' p) = dtpr_provider (probe_heap st p)"
    "\<And>pv. dtpv_name (provider_heap st' pv) = dtpv_name (provider_heap st pv)"
    "dtrace_provider_list st' = dtrace_provider_list st"
  shows "core_inv st'"
proof -
  have inv: "probe_inv st" using assms(1) by (simp add: core_inv_def)
  note frame = probe_inv_frame [OF inv assms(2-10)]
  show ?thesis using frame(1) assms(1) unfolding core_inv_def frame(2) assms(11-13) by simp
qed

lemma core_inv_step: "core_step st st' \<Longrightarrow> core_inv st \<Longrightarrow> core_inv st'"
proof (induction rule: core_step.induct)
  case (invalidate pv st st')
  then have st': "st' = st\<lparr>provider_heap := (provider_heap st)(pv := (provider_heap st pv)\<lparr>dtpv_defunct := True\<rparr>)\<rparr>"
    by (simp add: dtrace_invalidate_def split: if_splits)
  show ?case by (rule core_inv_frame [OF invalidate.prems]) (simp_all add: st')
next
  case (ecb st p e)
  show ?case by (rule core_inv_frame [OF ecb.prems]) simp_all
next
  case (opens st b k n)
  show ?case by (rule core_inv_frame [OF opens.prems]) simp_all
qed (blast intro: core_inv_register core_inv_create core_inv_unregister core_inv_condense)+

text \<open>No step widens the gap between the arena and the table; a failed allocation widens it by one.\<close>

lemma unlink_loop_sizes:
  "unlink_loop sel n i st = Some st' \<Longrightarrow>
   dtrace_arena st' = dtrace_arena st \<and> length (dtrace_probes st') = length (dtrace_probes st)"
proof (induction n arbitrary: i st)
  case (Suc n)
  show ?case
  proof (cases "\<exists>p. dtrace_probes st ! i = Some p \<and> sel (probe_heap st p)")
    case True
    then obtain p st1 where st1: "probe_unlink i p st = Some st1" "unlink_loop sel n (Suc i) st1 = Some st'"
      using Suc.prems by (auto simp: bind_eq_Some_conv)
    have "dtrace_arena st1 = dtrace_arena st \<and> length (dtrace_probes st1) = length (dtrace_probes st)"
      using st1(1) by (auto simp: probe_unlink_def bind_eq_Some_conv)
    then show ?thesis using Suc.IH [OF st1(2)] by simp
  next
    case False
    then have "unlink_loop sel n (Suc i) st = Some st'" using Suc.prems by (auto split: option.splits)
    then show ?thesis by (rule Suc.IH)
  qed
qed simp

lemma probe_create_sizes:
  "dtrace_probe_create prov md func name aframes arg (Some p) st = Some (ident, st') \<Longrightarrow>
   dtrace_arena st' \<le> length (dtrace_probes st')"
  by (auto simp: dtrace_probe_create_def vmem_alloc_def probe_init_def probe_insert_def Let_def bind_eq_Some_conv
    split: if_splits)

lemma core_step_sizes:
  "core_step st st' \<Longrightarrow> dtrace_arena st \<le> length (dtrace_probes st) + k \<Longrightarrow>
   dtrace_arena st' \<le> length (dtrace_probes st') + k"
proof (induction rule: core_step.induct)
  case (create prov md func name aframes arg p st ident st')
  then show ?case using probe_create_sizes [OF create.hyps(1)] by simp
next
  case (condense prov st st')
  then show ?case using unlink_loop_sizes by (fastforce simp: dtrace_condense_def split: if_splits)
next
  case (unregister pv st rc st')
  then show ?case using unlink_loop_sizes
    by (fastforce simp: dtrace_unregister_def Let_def bind_eq_Some_conv split: if_splits)
qed (auto simp: dtrace_register_def dtrace_invalidate_def Let_def split: if_splits)

lemma core_inv_lost:
  assumes "dtrace_probe_create prov md func name aframes arg None st = Some (ident, st')" "core_inv st"
  shows "core_inv st' \<and> dtrace_arena st' = dtrace_arena st + 1 \<and> dtrace_probes st' = dtrace_probes st"
proof -
  have st': "st' = st\<lparr>dtrace_arena := dtrace_arena st + 1\<rparr>"
    using assms(1) by (auto simp: dtrace_probe_create_def vmem_alloc_def Let_def split: if_splits)
  then show ?thesis using assms(2) by (auto simp: core_inv_def probe_inv_def live_def le_SucI)
qed

lemma core_reachable_sizes:
  "core_reachable k st \<Longrightarrow> core_inv st \<and> dtrace_arena st \<le> length (dtrace_probes st) + k"
proof (induction rule: core_reachable.induct)
  case (attach ph pvh)
  show ?case using probe_inv_init [of ph pvh] by (simp add: core_inv_def core_init_def live_def)
next
  case (step k st st')
  then show ?case using core_inv_step core_step_sizes by blast
next
  case (lost k st prov md func name aframes arg ident st')
  then show ?case using core_inv_lost [OF lost.hyps(2)] by simp
qed

lemma core_reachable_inv: "core_reachable k st \<Longrightarrow> core_inv st"
  by (simp add: core_reachable_sizes)

lemma core_reachable_fits:
  "core_reachable 0 st \<Longrightarrow> dtrace_arena st < max 1 (2 * length (dtrace_probes st))"
  using core_reachable_sizes [of 0 st] by auto

section \<open>What a search delivers\<close>

text \<open>
  The reference: the callback is called for the probes of a list until it returns something else than
  \<^verbatim>\<open>DTRACE_MATCH_NEXT\<close>.
\<close>

fun deliver :: "'a matched \<Rightarrow> probe_ref list \<Rightarrow> int \<times> 'a \<Rightarrow> int \<times> 'a" where
  "deliver matched [] x = x"
| "deliver matched (p # ps) (nmatched, arg) =
     (let (rc, arg) = matched p arg in
      if rc = DTRACE_MATCH_NEXT then deliver matched ps (nmatched + 1, arg)
      else (if rc = DTRACE_MATCH_FAIL then DTRACE_MATCH_FAIL else nmatched + 1, arg))"

definition passes :: "(probe_ref \<Rightarrow> int option) \<Rightarrow> probe_ref \<Rightarrow> bool" where
  "passes test p = (case test p of None \<Rightarrow> False | Some rv \<Rightarrow> rv > 0)"

fun somes :: "'a option list \<Rightarrow> 'a list" where
  "somes [] = []"
| "somes (None # xs) = somes xs"
| "somes (Some x # xs) = x # somes xs"

lemma set_somes: "set (somes xs) = {x. Some x \<in> set xs}"
  by (induction xs rule: somes.induct) auto

lemma match_table_deliver:
  assumes "\<And>p. p \<in> set (somes tab) \<Longrightarrow> test p \<noteq> None"
  shows "match_table test matched tab x = Some (deliver matched (filter (passes test) (somes tab)) x)"
  using assms
proof (induction test matched tab x rule: match_table.induct)
  case (3 test matched p ps x)
  obtain n arg where x: "x = (n, arg)" by (cases x)
  obtain rv where rv: "test p = Some rv" using "3.prems" by fastforce
  obtain rc arg' where m: "matched p arg = (rc, arg')" by (cases "matched p arg")
  have IH: "match_one test matched p x = Some (Inr y) \<Longrightarrow>
      match_table test matched ps y = Some (deliver matched (filter (passes test) (somes ps)) y)" for y
    using "3.IH" "3.prems" by simp
  have pass: "passes test p \<longleftrightarrow> rv > 0" using rv by (simp add: passes_def)
  consider "rv \<le> 0" | "rv > 0" "rc = 0" | "rv > 0" "rc \<noteq> 0" by linarith
  then show ?case by cases (use IH rv m x pass in \<open>simp_all add: match_one_def\<close>)
qed simp_all

lemma match_chain_deliver:
  assumes "\<And>p. p \<in> set ps \<Longrightarrow> test p \<noteq> None"
    and "\<And>xs p ys. ps = xs @ p # ys \<Longrightarrow> nx p = (case ys of [] \<Rightarrow> None | q # qs \<Rightarrow> Some q)"
  shows "match_chain nx test matched (case ps of [] \<Rightarrow> None | p # ps \<Rightarrow> Some p) x =
    Some (deliver matched (filter (passes test) ps) x)"
  using assms
proof (induction ps arbitrary: x)
  case Nil
  show ?case by (subst match_chain.simps) simp
next
  case (Cons p ps)
  obtain n arg where x: "x = (n, arg)" by (cases x)
  obtain rv where rv: "test p = Some rv" using Cons.prems(1) [of p] by auto
  obtain rc arg' where m: "matched p arg = (rc, arg')" by (cases "matched p arg")
  have nx: "nx p = (case ps of [] \<Rightarrow> None | q # qs \<Rightarrow> Some q)" using Cons.prems(2) [of "[]"] by simp
  have IH: "match_chain nx test matched (nx p) y = Some (deliver matched (filter (passes test) ps) y)" for y
    unfolding nx
  proof (rule Cons.IH)
    show "\<And>q. q \<in> set ps \<Longrightarrow> test q \<noteq> None" using Cons.prems(1) by simp
    show "nx q = (case ys of [] \<Rightarrow> None | q # qs \<Rightarrow> Some q)" if "ps = xs @ q # ys" for xs q ys
      using Cons.prems(2) [of "p # xs" q ys] that by simp
  qed
  have pass: "passes test p \<longleftrightarrow> rv > 0" using rv by (simp add: passes_def)
  consider "rv \<le> 0" | "rv > 0" "rc = 0" | "rv > 0" "rc \<noteq> 0" by linarith
  then show ?case
    by cases (use IH rv m x pass in \<open>subst match_chain.simps, simp add: match_one_def\<close>)+
qed

text \<open>The probes of a hash chain are the live probes with its string.\<close>

lemma indexed_chain:
  assumes "indexed str h L"
  shows "\<exists>ps. distinct ps \<and> set ps = {p \<in> L. str p = s} \<and>
    dtrace_hash_lookup str h s = (case ps of [] \<Rightarrow> None | p # ps \<Rightarrow> Some p) \<and>
    (\<forall>xs p ys. ps = xs @ p # ys \<longrightarrow> dth_next h p = (case ys of [] \<Rightarrow> None | q # qs \<Rightarrow> Some q))"
proof -
  obtain F where F: "hash_inv str h F" "\<And>s. set (F s) = {p \<in> L. str p = s}" using assms by (auto simp: indexed_def)
  have "distinct (F s)" using probe_hash.strings [OF F(1)] by blast
  then show ?thesis
    using F(2) probe_hash.lookup_law [OF F(1)] probe_hash.succ_law [OF F(1)] by (intro exI [of _ "F s"]) auto
qed

text \<open>A key is well formed when a pattern that is compared or hashed is a string.\<close>

definition key_ok :: "dtrace_probekey_t \<Rightarrow> bool" where
  "key_ok pkp \<longleftrightarrow>
     (\<forall>(f, t) \<in> {(dtpk_pmatch pkp, dtpk_prov pkp), sel_key pkp ByMod, sel_key pkp ByFunc, sel_key pkp ByName}.
        f = match_string \<longrightarrow> (\<exists>s. t = Some s \<and> 0 \<notin> set s))"

lemma key_okD:
  assumes "key_ok pkp" "sel_key pkp s = (match_string, t)"
  shows "\<exists>u. t = Some u \<and> 0 \<notin> set u"
  using assms by (cases s) (auto simp: key_ok_def)

lemma match_probe_total: "key_ok pkp \<Longrightarrow> \<exists>rv. dtrace_match_probe st pkp priv uid zoneid p = Some rv"
proof -
  assume ok: "key_ok pkp"
  have "\<exists>rv. probekey_call f (Some u) t = Some rv" if "f = match_string \<longrightarrow> t \<noteq> None" for f u t
    using that by (cases f) (auto simp: probekey_call_def dtrace_match_string_def)
  note call = this
  have t: "dtpk_pmatch pkp = match_string \<longrightarrow> dtpk_prov pkp \<noteq> None" "dtpk_mmatch pkp = match_string \<longrightarrow> dtpk_mod pkp \<noteq> None"
    "dtpk_fmatch pkp = match_string \<longrightarrow> dtpk_func pkp \<noteq> None" "dtpk_nmatch pkp = match_string \<longrightarrow> dtpk_name pkp \<noteq> None"
    using ok by (auto simp: key_ok_def sel_key_def)
  obtain a b c d where "probekey_call (dtpk_pmatch pkp) (Some (dtpv_name (provider_heap st (dtpr_provider (probe_heap st p))))) (dtpk_prov pkp) = Some a"
    "probekey_call (dtpk_mmatch pkp) (Some (mod_of st p)) (dtpk_mod pkp) = Some b"
    "probekey_call (dtpk_fmatch pkp) (Some (func_of st p)) (dtpk_func pkp) = Some c"
    "probekey_call (dtpk_nmatch pkp) (Some (name_of st p)) (dtpk_name pkp) = Some d"
    using call t by meson
  then show ?thesis by (simp add: dtrace_match_probe_def Let_def)
qed

lemma match_string_eq:
  "0 \<notin> set s \<Longrightarrow> 0 \<notin> set t \<Longrightarrow> probekey_call match_string (Some s) (Some t) = Some (of_bool (s = t))"
  by (simp add: probekey_call_def dtrace_match_string_def dtrace_strcmp_eq_0)

text \<open>A match has the string of every element that is compared exactly.\<close>

lemma match_probe_sel:
  assumes "probe_inv st" "p \<in> live st" "sel_key pkp s = (match_string, Some t)" "0 \<notin> set t"
    and "dtrace_match_probe st pkp priv uid zoneid p = Some rv" "rv > 0"
  shows "sel_str st s p = t"
proof -
  have "0 \<notin> set (sel_str st s p)" using assms(1,2) unfolding probe_inv_def by (cases s) (auto simp: sel_str_def)
  then have "probekey_call match_string (Some (sel_str st s p)) (Some t) = Some (of_bool (sel_str st s p = t))"
    using assms(4) by (rule match_string_eq)
  moreover have "\<exists>r. probekey_call match_string (Some (sel_str st s p)) (Some t) = Some r \<and> r > 0"
    using assms(3,5,6)
    by (cases s) (auto simp: dtrace_match_probe_def Let_def sel_key_def sel_str_def bind_eq_Some_conv split: if_splits)
  ultimately show ?thesis by (auto split: if_splits)
qed

definition hash_choice :: "dtrace_probekey_t \<Rightarrow> (hash_sel \<times> cstr) option \<Rightarrow> bool" where
  "hash_choice pkp hash = (case hash of None \<Rightarrow> True | Some (s, t) \<Rightarrow> sel_key pkp s = (match_string, Some t))"

lemma hash_choice_None [simp]: "hash_choice pkp None"
  by (simp add: hash_choice_def)

lemma better_hash_choice:
  assumes "key_ok pkp" "hash_choice pkp hash"
  shows "\<exists>best' hash'. better_hash st pkp s (best, hash) = Some (best', hash') \<and> hash_choice pkp hash'"
proof (cases "sel_key pkp s")
  case (Pair f t)
  show ?thesis
  proof (cases "f = match_string")
    case True
    then obtain u where "t = Some u" using key_okD [OF assms(1)] Pair by blast
    then show ?thesis using Pair True assms(2) by (simp add: better_hash_def Let_def hash_choice_def)
  next
    case False
    then show ?thesis using Pair assms(2) by (cases f) (simp_all add: better_hash_def)
  qed
qed

lemma table_distinct:
  assumes "probe_inv st"
  shows "distinct (somes (dtrace_probes st))"
proof -
  have "i = j" if "i < length (dtrace_probes st)" "j < length (dtrace_probes st)"
    "dtrace_probes st ! i = Some p" "dtrace_probes st ! j = Some p" for i j p
  proof -
    have "dtpr_id (probe_heap st p) = i + 1" "dtpr_id (probe_heap st p) = j + 1"
      using that assms unfolding probe_inv_def by blast+
    then show ?thesis by simp
  qed
  moreover have "distinct (somes tab)"
    if "\<And>i j p. i < length tab \<Longrightarrow> j < length tab \<Longrightarrow> tab ! i = Some p \<Longrightarrow> tab ! j = Some p \<Longrightarrow> i = j"
    for tab :: "probe_ref option list"
    using that
  proof (induction tab rule: somes.induct)
    case (2 xs)
    show ?case using "2.prems" [of "Suc _" "Suc _"] by (simp add: "2.IH")
  next
    case (3 x xs)
    have "distinct (somes xs)" using "3.prems" [of "Suc _" "Suc _"] by (simp add: "3.IH")
    moreover have "Some x \<notin> set xs" using "3.prems" [of 0 "Suc _" x] by (auto simp: in_set_conv_nth)
    ultimately show ?case by (simp add: set_somes)
  qed simp
  ultimately show ?thesis by blast
qed

lemma match_delivers:
  assumes inv: "probe_inv st" and key: "key_ok pkp" "dtpk_id pkp = DTRACE_IDNONE"
  shows "\<exists>ps. distinct ps \<and> set ps = {p \<in> live st. passes (dtrace_match_probe st pkp priv uid zoneid) p} \<and>
    dtrace_match st pkp priv uid zoneid matched arg = Some (deliver matched ps (0, arg))"
proof -
  let ?test = "dtrace_match_probe st pkp priv uid zoneid"
  have tot: "?test p \<noteq> None" for p using match_probe_total [OF key(1)] by (metis option.discI)
  obtain b1 h1 where h1: "better_hash st pkp ByMod (int INT_MAX, None) = Some (b1, h1)" "hash_choice pkp h1"
    using better_hash_choice [OF key(1) hash_choice_None] by blast
  obtain b2 h2 where h2: "better_hash st pkp ByFunc (b1, h1) = Some (b2, h2)" "hash_choice pkp h2"
    using better_hash_choice [OF key(1) h1(2)] by blast
  obtain b3 h3 where h3: "better_hash st pkp ByName (b2, h2) = Some (b3, h3)" "hash_choice pkp h3"
    using better_hash_choice [OF key(1) h2(2)] by blast
  show ?thesis
  proof (cases h3)
    case None
    then have "dtrace_match st pkp priv uid zoneid matched arg = match_table ?test matched (dtrace_probes st) (0, arg)"
      using h1 h2 h3 key(2) by (simp add: dtrace_match_def)
    also have "\<dots> = Some (deliver matched (filter (passes ?test) (somes (dtrace_probes st))) (0, arg))"
      using tot by (rule match_table_deliver)
    finally show ?thesis
      using table_distinct [OF inv]
      by (intro exI [of _ "filter (passes ?test) (somes (dtrace_probes st))"]) (auto simp: set_somes live_def)
  next
    case (Some c)
    then obtain s t where c: "h3 = Some (s, t)" by (cases c) simp
    then have st: "sel_key pkp s = (match_string, Some t)" using h3(2) by (simp add: hash_choice_def)
    have t: "0 \<notin> set t" using key_okD [OF key(1) st] by simp
    have "indexed (sel_str st s) (sel_hash st s) (live st)"
      using inv unfolding probe_inv_def by (cases s) (simp_all add: sel_str_def sel_hash_def)
    then obtain ps where ps: "distinct ps" "set ps = {p \<in> live st. sel_str st s p = t}"
      "dtrace_hash_lookup (sel_str st s) (sel_hash st s) t = (case ps of [] \<Rightarrow> None | p # ps \<Rightarrow> Some p)"
      "\<And>xs p ys. ps = xs @ p # ys \<Longrightarrow> dth_next (sel_hash st s) p = (case ys of [] \<Rightarrow> None | q # qs \<Rightarrow> Some q)"
      using indexed_chain [of "sel_str st s" "sel_hash st s" "live st" t] by blast
    have "dtrace_match st pkp priv uid zoneid matched arg =
        match_chain (dth_next (sel_hash st s)) ?test matched (case ps of [] \<Rightarrow> None | p # ps \<Rightarrow> Some p) (0, arg)"
      using h1 h2 h3 key(2) c ps(3) by (simp add: dtrace_match_def)
    also have "\<dots> = Some (deliver matched (filter (passes ?test) ps) (0, arg))"
      using tot ps(4) by (rule match_chain_deliver)
    finally show ?thesis
      using ps(1,2) match_probe_sel [OF inv _ st t]
      by (intro exI [of _ "filter (passes ?test) ps"]) (auto simp: passes_def split: option.splits)
  qed
qed

text \<open>Looking up an exact name: the identifier of a probe that has it, or 0 when there is none.\<close>

definition has_name :: "dtrace_core \<Rightarrow> provider_ref \<Rightarrow> cstr \<Rightarrow> cstr \<Rightarrow> cstr \<Rightarrow> probe_ref \<Rightarrow> bool" where
  "has_name st prid m f n p \<longleftrightarrow>
     (let pv = provider_heap st (dtpr_provider (probe_heap st p)) in
      \<not> dtpv_defunct pv \<and> dtpv_name pv = dtpv_name (provider_heap st prid) \<and>
      mod_of st p = m \<and> func_of st p = f \<and> name_of st p = n)"

lemma probe_lookup_exact:
  assumes inv: "core_inv st" and names: "prid \<in> set (dtrace_provider_list st)" "0 \<notin> set m" "0 \<notin> set f" "0 \<notin> set n"
  shows "\<exists>ident. dtrace_probe_lookup prid (Some m) (Some f) (Some n) st = Some ident \<and>
    (if \<exists>p \<in> live st. has_name st prid m f n p
     then \<exists>p \<in> live st. has_name st prid m f n p \<and> ident = dtpr_id (probe_heap st p) else ident = 0)"
proof -
  define pkey where "pkey = \<lparr>dtpk_prov = Some (dtpv_name (provider_heap st prid)), dtpk_pmatch = match_string,
    dtpk_mod = Some m, dtpk_mmatch = match_string, dtpk_func = Some f, dtpk_fmatch = match_string,
    dtpk_name = Some n, dtpk_nmatch = match_string, dtpk_id = DTRACE_IDNONE\<rparr>"
  let ?test = "dtrace_match_probe st pkey DTRACE_PRIV_ALL 0 0"
  have prov: "0 \<notin> set (dtpv_name (provider_heap st prid))" using inv names(1) by (simp add: core_inv_def)
  have test: "passes ?test p \<longleftrightarrow> has_name st prid m f n p" if "p \<in> live st" for p
  proof -
    have "0 \<notin> set (mod_of st p) \<and> 0 \<notin> set (func_of st p) \<and> 0 \<notin> set (name_of st p)"
      "0 \<notin> set (dtpv_name (provider_heap st (dtpr_provider (probe_heap st p))))"
      using inv that by (auto simp: core_inv_def probe_inv_def)
    then show ?thesis
      using names prov
      by (simp add: passes_def dtrace_match_probe_def Let_def pkey_def match_string_eq has_name_def dtrace_match_priv_def)
  qed
  have "probe_inv st" "key_ok pkey" "dtpk_id pkey = DTRACE_IDNONE"
    using inv names prov by (simp_all add: core_inv_def key_ok_def pkey_def sel_key_def)
  then obtain ps where ps: "set ps = {p \<in> live st. passes ?test p}"
    "dtrace_match st pkey DTRACE_PRIV_ALL 0 0 (dtrace_probe_lookup_match st) 0 =
       Some (deliver (dtrace_probe_lookup_match st) ps (0, 0))"
    using match_delivers [of st pkey DTRACE_PRIV_ALL 0 0 "dtrace_probe_lookup_match st" 0] by blast
  show ?thesis
  proof (cases ps)
    case Nil
    then have "\<not> (\<exists>p \<in> live st. has_name st prid m f n p)" using ps(1) test by auto
    then show ?thesis using ps(2) Nil by (simp add: dtrace_probe_lookup_def Let_def pkey_def)
  next
    case (Cons p qs)
    then have "p \<in> live st" "has_name st prid m f n p" using ps(1) test by auto
    then show ?thesis using ps(2) Cons
      by (auto simp: dtrace_probe_lookup_def Let_def pkey_def dtrace_probe_lookup_match_def)
  qed
qed

text \<open>
  A small history: provider 3, called \<^verbatim>\<open>p\<close>, registers with an empty driver and creates the probe
  \<^verbatim>\<open>p:m:f:n\<close> at reference 5.
\<close>

definition demo_pops :: dtrace_pops where
  "demo_pops = \<lparr>dtps_provide = True, dtps_provide_module = False, dtps_enable = True, dtps_disable = True,
     dtps_suspend = False, dtps_resume = False, dtps_usermode = False, dtps_destroy = True,
     dtps_enable_null = False, dtps_own = False\<rparr>"

definition demo_init :: dtrace_core where
  "demo_init = core_init (\<lambda>p. \<lparr>dtpr_id = 0, dtpr_ecb = None, dtpr_arg = 0, dtpr_aframes = 0, dtpr_provider = 0,
        dtpr_mod = [], dtpr_func = [], dtpr_name = [], dtpr_gen = 0\<rparr>)
     (\<lambda>pv. \<lparr>dtpv_name = [], dtpp_flags = 0, dtpp_uid = 0, dtpp_zoneid = 0, dtpv_defunct = True, dtps_enable_nullop = False\<rparr>)"

definition demo_registered :: dtrace_core where
  "demo_registered = snd (the (dtrace_register (Some [0x70]) (Some []) 0 None (Some demo_pops) True 3 demo_init))"

definition demo_created :: dtrace_core where
  "demo_created = snd (the (dtrace_probe_create 3 (Some [0x6D]) (Some [0x66]) (Some [0x6E]) 0 0 (Some 5) demo_registered))"

lemma demo_registered:
  "dtrace_provider_list demo_registered = [3]" "live demo_registered = {}" "dtrace_arena demo_registered = 0"
  "provider_heap demo_registered 3 = \<lparr>dtpv_name = [0x70], dtpp_flags = 0, dtpp_uid = 0, dtpp_zoneid = 0,
     dtpv_defunct = False, dtps_enable_nullop = False\<rparr>"
  "dtrace_opens demo_registered = 0" "dta_necbs demo_registered = None" "core_reachable 0 demo_registered"
  "dtrace_probes demo_registered = []"
proof -
  have rc: "register_check (Some [0x70]) (Some []) 0 (Some demo_pops) True = 0"
    by (simp add: register_check_def demo_pops_def dtrace_badname_def DTRACE_ISALPHA_def char_between_def)
  have own: "\<not> dtps_own demo_pops" by (simp add: demo_pops_def)
  then have reg: "dtrace_register (Some [0x70]) (Some []) 0 None (Some demo_pops) True 3 demo_init = Some (0, demo_registered)"
    by (simp add: demo_registered_def dtrace_register_def rc)
  show "dtrace_provider_list demo_registered = [3]" "live demo_registered = {}" "dtrace_arena demo_registered = 0"
    "provider_heap demo_registered 3 = \<lparr>dtpv_name = [0x70], dtpp_flags = 0, dtpp_uid = 0, dtpp_zoneid = 0,
       dtpv_defunct = False, dtps_enable_nullop = False\<rparr>"
    "dtrace_opens demo_registered = 0" "dta_necbs demo_registered = None" "dtrace_probes demo_registered = []"
    unfolding demo_registered_def dtrace_register_def Let_def rc
    by (simp_all add: own demo_init_def core_init_def register_link_def live_def) (simp_all add: demo_pops_def)
  have "core_reachable 0 demo_init" unfolding demo_init_def by (rule attach)
  then show "core_reachable 0 demo_registered"
    by (rule step) (rule register [OF reg], simp_all add: cstring_opt_def demo_init_def core_init_def)
qed

lemma demo_created:
  "core_reachable 0 demo_created" "live demo_created = {5}" "dtrace_provider_list demo_created = [3]"
  "dtpr_provider (probe_heap demo_created 5) = 3" "provider_heap demo_created = provider_heap demo_registered"
  "mod_of demo_created 5 = [0x6D]" "func_of demo_created 5 = [0x66]" "name_of demo_created 5 = [0x6E]"
  "dtpr_ecb (probe_heap demo_created 5) = None" "dtrace_opens demo_created = 0" "dta_necbs demo_created = None"
proof -
  have inv: "probe_inv demo_registered" using core_reachable_inv [OF demo_registered(7)] by (simp add: core_inv_def)
  have names: "cstring_opt (Some [0x6D])" "cstring_opt (Some [0x66])" "cstring_opt (Some [0x6E])"
    by (simp_all add: cstring_opt_def)
  have "5 \<notin> live demo_registered" "dtrace_arena demo_registered < INT_MAX" by (simp_all add: demo_registered INT_MAX_def)
  then obtain st' where st': "dtrace_probe_create 3 (Some [0x6D]) (Some [0x66]) (Some [0x6E]) 0 0 (Some 5) demo_registered =
      Some (dtrace_arena demo_registered + 1, st')" "live st' = insert 5 (live demo_registered)"
      "dtrace_provider_list st' = dtrace_provider_list demo_registered" "dtpr_provider (probe_heap st' 5) = 3"
      "provider_heap st' = provider_heap demo_registered"
      "mod_of st' 5 = [0x6D]" "func_of st' 5 = [0x66]" "name_of st' 5 = [0x6E]"
      "dtpr_ecb (probe_heap st' 5) = None" "dtrace_opens st' = dtrace_opens demo_registered"
      "dta_necbs st' = dta_necbs demo_registered"
    using probe_create_inv [OF inv _ _ core_reachable_fits [OF demo_registered(7)] names, of 5 3 0 0] unfolding dtrace_strdup_def option.case by blast
  then have eq: "demo_created = st'" by (simp add: demo_created_def)
  show "core_reachable 0 demo_created"
    unfolding eq by (rule step [OF demo_registered(7)], rule create [OF st'(1)]) (simp_all add: demo_registered names)
  show "live demo_created = {5}" "dtrace_provider_list demo_created = [3]"
    "dtpr_provider (probe_heap demo_created 5) = 3" "provider_heap demo_created = provider_heap demo_registered"
    "mod_of demo_created 5 = [0x6D]" "func_of demo_created 5 = [0x66]" "name_of demo_created 5 = [0x6E]"
  "dtpr_ecb (probe_heap demo_created 5) = None" "dtrace_opens demo_created = 0" "dta_necbs demo_created = None"
    using st' demo_registered by (simp_all add: eq)
qed

section \<open>A hash as a map from strings to lists\<close>

text \<open>
  Operations on one hash in any order. The specification is a map from strings to the list of their
  probes, newest first; adding a probe that is there or removing one that is not has no meaning.
\<close>

datatype hash_op = HashAdd probe_ref | HashRemove probe_ref

fun hash_run :: "(probe_ref \<Rightarrow> cstr) \<Rightarrow> hash_op list \<Rightarrow> dtrace_hash \<Rightarrow> dtrace_hash option" where
  "hash_run str [] h = Some h"
| "hash_run str (HashAdd p # ops) h = Option.bind (dtrace_hash_add str p (hash_zero p h)) (hash_run str ops)"
| "hash_run str (HashRemove p # ops) h = Option.bind (dtrace_hash_remove str p h) (hash_run str ops)"

fun spec_run :: "(probe_ref \<Rightarrow> cstr) \<Rightarrow> hash_op list \<Rightarrow> (cstr \<Rightarrow> probe_ref list) \<Rightarrow> (cstr \<Rightarrow> probe_ref list) option" where
  "spec_run str [] F = Some F"
| "spec_run str (HashAdd p # ops) F =
     (if p \<in> set (F (str p)) then None else spec_run str ops (F(str p := p # F (str p))))"
| "spec_run str (HashRemove p # ops) F =
     (if p \<in> set (F (str p)) then spec_run str ops (F(str p := remove1 p (F (str p)))) else None)"

lemma hash_run_inv:
  assumes "hash_inv str h F" "spec_run str ops F = Some F'"
  shows "\<exists>h'. hash_run str ops h = Some h' \<and> hash_inv str h' F'"
  using assms
proof (induction ops arbitrary: h F)
  case (Cons op ops)
  show ?case
  proof (cases op)
    case (HashAdd p)
    then have p: "p \<notin> set (F (str p))" "spec_run str ops (F(str p := p # F (str p))) = Some F'"
      using Cons.prems(2) by (simp_all split: if_splits)
    have "q \<noteq> p" if "q \<in> set (F s)" for q s
    proof -
      have "str q = s" using probe_hash.strings [OF Cons.prems(1), of s] that by simp
      then show ?thesis using that p(1) by auto
    qed
    then have "hash_inv str (hash_zero p h) F"
      by (intro hash_inv_cong [OF Cons.prems(1)]) (auto simp: hash_zero_def)
    moreover have "hash_fresh (hash_zero p h) p" by (simp add: hash_fresh_def hash_zero_def)
    ultimately obtain h' where h': "dtrace_hash_add str p (hash_zero p h) = Some h'" "hash_inv str h' (F(str p := p # F (str p)))"
      using probe_hash.add_law p(1) by blast
    then show ?thesis using Cons.IH [OF h'(2) p(2)] HashAdd by simp
  next
    case (HashRemove p)
    then have p: "p \<in> set (F (str p))" "spec_run str ops (F(str p := remove1 p (F (str p)))) = Some F'"
      using Cons.prems(2) by (simp_all split: if_splits)
    obtain h' where h': "dtrace_hash_remove str p h = Some h'" "hash_inv str h' (F(str p := remove1 p (F (str p))))"
      using probe_hash.remove_law [OF Cons.prems(1) p(1)] by blast
    then show ?thesis using Cons.IH [OF h'(2) p(2)] HashRemove by simp
  qed
qed simp

section \<open>Correctness of the registry\<close>

text \<open>
  \<^bold>\<open>C9.\<close> A probe hash implements the map from strings to probe lists: after any meaningful sequence of
  additions and removals, with all the doublings of the table they cause, a lookup returns the head of the
  list of the string, the links run through that list in order and end with it, and the collision count is
  at least its length. No operation fails.
\<close>

theorem dtrace_hash_refines:
  assumes "spec_run str ops (\<lambda>s. []) = Some F"
  shows "\<exists>h. hash_run str ops dtrace_hash_create = Some h \<and>
    (\<forall>s. dtrace_hash_lookup str h s = (case F s of [] \<Rightarrow> None | p # ps \<Rightarrow> Some p)) \<and>
    (\<forall>s xs p ys. F s = xs @ p # ys \<longrightarrow> dth_next h p = (case ys of [] \<Rightarrow> None | q # qs \<Rightarrow> Some q)) \<and>
    (\<forall>s. int (length (F s)) \<le> dtrace_hash_collisions str h s)"
proof -
  obtain h where h: "hash_run str ops dtrace_hash_create = Some h" "hash_inv str h F"
    using hash_run_inv [OF hash_create_inv assms] by blast
  show ?thesis
    using h(1) probe_hash.lookup_law [OF h(2)] probe_hash.succ_law [OF h(2)] probe_hash.collisions_law [OF h(2)] by blast
qed

theorem dtrace_hash_refines_witness:
  "\<exists>h. hash_run (\<lambda>p. if p < 3 then [0x61] else [0x62]) [HashAdd 1, HashAdd 2, HashAdd 7, HashRemove 1, HashAdd 1]
      dtrace_hash_create = Some h \<and>
    dtrace_hash_lookup (\<lambda>p. if p < 3 then [0x61] else [0x62]) h [0x61] = Some 1 \<and> dth_next h 1 = Some 2"
proof -
  let ?str = "\<lambda>p :: probe_ref. if p < 3 then [0x61] else [0x62] :: cstr"
  let ?ops = "[HashAdd 1, HashAdd 2, HashAdd 7, HashRemove 1, HashAdd 1]"
  obtain F where F: "spec_run ?str ?ops (\<lambda>s. []) = Some F" "F [0x61] = [1, 2]" by simp
  from dtrace_hash_refines [OF F(1)] obtain h where h: "hash_run ?str ?ops dtrace_hash_create = Some h"
    "\<forall>s. dtrace_hash_lookup ?str h s = (case F s of [] \<Rightarrow> None | p # ps \<Rightarrow> Some p)"
    "\<forall>s xs p ys. F s = xs @ p # ys \<longrightarrow> dth_next h p = (case ys of [] \<Rightarrow> None | q # qs \<Rightarrow> Some q)"
    by blast
  have "dtrace_hash_lookup ?str h [0x61] = Some 1" using h(2) F(2) by (metis list.case(2))
  moreover have "dth_next h 1 = Some 2" using h(3) [rule_format, of "[0x61]" "[]" 1 "[2]"] F(2) by simp
  ultimately show ?thesis using h(1) by blast
qed

text \<open>
  \<^bold>\<open>C7.\<close> In every state the driver reaches, the probe table and the three hashes describe the same
  set of probes: entry \<open>i\<close> of the table is the probe with identifier \<open>i + 1\<close>, the chain of every string in
  each hash is a duplicate-free enumeration of exactly the live probes with that string, no identifier
  beyond the arena is in use, and every live probe belongs to a registered provider. The arena is ahead of
  the table by no more than the \<open>k\<close> identifiers that failed allocations have lost.
\<close>

theorem probe_table_consistent:
  assumes "core_reachable k st"
  shows "probe_inv st \<and> (\<forall>p \<in> live st. dtpr_provider (probe_heap st p) \<in> set (dtrace_provider_list st) \<and>
    dtrace_probe_lookup_id (dtpr_id (probe_heap st p)) st = Some p) \<and>
    dtrace_arena st \<le> length (dtrace_probes st) + k"
proof -
  note inv = core_reachable_sizes [OF assms]
  have "dtrace_probe_lookup_id (dtpr_id (probe_heap st p)) st = Some p" if p: "p \<in> live st" for p
  proof -
    obtain i where i: "i < length (dtrace_probes st)" "dtrace_probes st ! i = Some p" using live_nth [OF p] by blast
    then have "dtpr_id (probe_heap st p) = i + 1" using inv by (simp add: core_inv_def probe_inv_def)
    then show ?thesis using i by (simp add: dtrace_probe_lookup_id_def)
  qed
  then show ?thesis using inv by (simp add: core_inv_def)
qed

theorem probe_table_consistent_witness:
  "dtrace_probe_lookup_id (dtpr_id (probe_heap demo_created 5)) demo_created = Some 5"
  using probe_table_consistent [OF demo_created(1)] by (simp add: demo_created)

text \<open>
  \<^bold>\<open>C8.\<close> In every reachable state a search with a well-formed key calls its callback on the probes that
  the key matches and no others, each once, whichever of the three hashes it picks, or the linear scan, and
  stops when the callback asks for it.
\<close>

theorem dtrace_match_exact:
  assumes "core_reachable k st" "key_ok pkp" "dtpk_id pkp = DTRACE_IDNONE"
  shows "\<exists>ps. distinct ps \<and> set ps = {p \<in> live st. passes (dtrace_match_probe st pkp priv uid zoneid) p} \<and>
    dtrace_match st pkp priv uid zoneid matched arg = Some (deliver matched ps (0, arg))"
proof -
  have inv: "probe_inv st" using core_reachable_inv [OF assms(1)] by (simp add: core_inv_def)
  show ?thesis by (rule match_delivers [OF inv assms(2,3)])
qed

definition demo_key :: dtrace_probekey_t where
  "demo_key = dtrace_probekey \<lparr>dtpd_id = 0, dtpd_provider = [], dtpd_mod = [0x6D], dtpd_func = [], dtpd_name = [chr_star]\<rparr>"

theorem dtrace_match_exact_witness:
  "dtrace_match demo_created demo_key DTRACE_PRIV_ALL 0 0 (\<lambda>p arg. (0, p # arg)) [] = Some (1, [5])"
proof -
  have key: "demo_key = \<lparr>dtpk_prov = Some [], dtpk_pmatch = match_nul, dtpk_mod = Some [0x6D], dtpk_mmatch = match_string,
      dtpk_func = Some [], dtpk_fmatch = match_nul, dtpk_name = Some [chr_star], dtpk_nmatch = match_glob, dtpk_id = 0\<rparr>"
    by (simp add: demo_key_def dtrace_probekey_def dtrace_probekey_func_def glob_char_def)
  have "passes (dtrace_match_probe demo_created demo_key DTRACE_PRIV_ALL 0 0) 5"
    by (simp add: passes_def dtrace_match_probe_def demo_created demo_registered key Let_def probekey_call_def
      dtrace_match_nul_def dtrace_match_glob_def dtrace_match_string_def dtrace_strcmp_eq_0 dtrace_match_priv_def
      glob_correct glob_ref_star_only)
  then obtain ps where "distinct ps" "set ps = {5}"
    "dtrace_match demo_created demo_key DTRACE_PRIV_ALL 0 0 (\<lambda>p arg. (0, p # arg)) [] =
      Some (deliver (\<lambda>p arg. (0, p # arg)) ps (0, []))"
    using dtrace_match_exact [OF demo_created(1), of demo_key DTRACE_PRIV_ALL 0 0 "\<lambda>p arg. (0, p # arg)" "[]"]
    by (auto simp: demo_created key_ok_def sel_key_def key)
  moreover from this have "ps = [5]" by (cases ps; cases "tl ps") auto
  ultimately show ?thesis by simp
qed

text \<open>
  \<^bold>\<open>C10.\<close> A probe that a registered provider creates under a name nobody uses gets the next identifier and
  is found again by that identifier and by its name; creation fails no assertion, as long as no identifier
  was lost or the doubled table still has room for the next one.
\<close>

theorem dtrace_probe_create_lookup:
  assumes "core_reachable k st" "p \<notin> live st" "dtrace_arena st < INT_MAX" "prov \<in> set (dtrace_provider_list st)"
    and "\<not> dtpv_defunct (provider_heap st prov)" "0 \<notin> set m" "0 \<notin> set f" "0 \<notin> set n"
    and "\<forall>q \<in> live st. \<not> has_name st prov m f n q"
    and "k = 0 \<or> dtrace_arena st < max 1 (2 * length (dtrace_probes st))"
  shows "\<exists>st'. dtrace_probe_create prov (Some m) (Some f) (Some n) aframes arg (Some p) st = Some (dtrace_arena st + 1, st') \<and>
    core_reachable k st' \<and> live st' = insert p (live st) \<and>
    dtrace_probe_lookup_id (dtrace_arena st + 1) st' = Some p \<and>
    dtrace_probe_lookup prov (Some m) (Some f) (Some n) st' = Some (dtrace_arena st + 1)"
proof -
  have inv: "core_inv st" using assms(1) by (rule core_reachable_inv)
  have strs: "cstring_opt (Some m)" "cstring_opt (Some f)" "cstring_opt (Some n)"
    using assms(6-8) by (simp_all add: cstring_opt_def)
  have pinv: "probe_inv st" using inv by (simp add: core_inv_def)
  have fits: "dtrace_arena st < max 1 (2 * length (dtrace_probes st))"
    using assms(1,10) core_reachable_fits by blast
  obtain st' where st': "dtrace_probe_create prov (Some m) (Some f) (Some n) aframes arg (Some p) st = Some (dtrace_arena st + 1, st')"
    "probe_inv st'" "live st' = insert p (live st)" "dtrace_probe_lookup_id (dtrace_arena st + 1) st' = Some p"
    "\<forall>q. q \<noteq> p \<longrightarrow> probe_heap st' q = probe_heap st q" "mod_of st' p = m" "func_of st' p = f" "name_of st' p = n"
    "dtpr_provider (probe_heap st' p) = prov" "provider_heap st' = provider_heap st"
    "dtrace_provider_list st' = dtrace_provider_list st"
    using probe_create_inv [OF pinv assms(2,3) fits strs, of prov aframes arg] unfolding dtrace_strdup_def option.case by blast
  have reach: "core_reachable k st'"
    using assms(1) create [OF st'(1) assms(2,4) strs] by (rule step)
  have "has_name st' prov m f n p" using st' assms(5) by (simp add: has_name_def Let_def)
  moreover have "\<not> has_name st' prov m f n q" if "q \<in> live st" for q
  proof -
    have "q \<noteq> p" using that assms(2) by auto
    then show ?thesis using st'(5,10) assms(9) that by (simp add: has_name_def Let_def)
  qed
  ultimately have only: "q \<in> live st' \<and> has_name st' prov m f n q \<longleftrightarrow> q = p" for q using st'(3) by auto
  have ident: "dtpr_id (probe_heap st' p) = dtrace_arena st + 1"
    using st'(2,4) unfolding probe_inv_def dtrace_probe_lookup_id_def by (simp split: if_splits)
  have "prov \<in> set (dtrace_provider_list st')" using st'(11) assms(4) by simp
  then obtain i where "dtrace_probe_lookup prov (Some m) (Some f) (Some n) st' = Some i"
    "i = dtpr_id (probe_heap st' p)"
    using probe_lookup_exact [OF core_reachable_inv [OF reach] _ assms(6-8)] only by (metis (full_types))
  then show ?thesis using st'(1,3,4) reach ident by (intro exI [of _ st']) simp
qed

theorem dtrace_probe_create_lookup_witness:
  "\<exists>st'. dtrace_probe_create 3 (Some [0x6D]) (Some [0x66]) (Some [0x6E]) 2 9 (Some 5) demo_registered = Some (1, st') \<and>
    dtrace_probe_lookup 3 (Some [0x6D]) (Some [0x66]) (Some [0x6E]) st' = Some 1"
  using dtrace_probe_create_lookup [of 0 demo_registered 5 3 "[0x6D]" "[0x66]" "[0x6E]" 2 9]
  by (auto simp: demo_registered INT_MAX_def)

text \<open>
  \<^bold>\<open>C11.\<close> In a reachable state, creating a probe for which there is memory fails its assertion exactly when
  the next identifier lies beyond the doubled table: the table is doubled once, however far ahead the arena
  is. This takes at least as many failed allocations as the table has entries, and at least one.
\<close>

theorem dtrace_probe_create_lost_ids:
  assumes "core_reachable k st" "p \<notin> live st" "dtrace_arena st < INT_MAX"
    and "cstring_opt md" "cstring_opt func" "cstring_opt name"
  shows "(dtrace_probe_create prov md func name aframes arg (Some p) st = None \<longleftrightarrow>
      max 1 (2 * length (dtrace_probes st)) \<le> dtrace_arena st) \<and>
    (max 1 (2 * length (dtrace_probes st)) \<le> dtrace_arena st \<longrightarrow> max 1 (length (dtrace_probes st)) \<le> k)"
proof -
  have inv: "probe_inv st" "dtrace_arena st \<le> length (dtrace_probes st) + k"
    using core_reachable_sizes [OF assms(1)] by (simp_all add: core_inv_def)
  have "dtrace_probe_create prov md func name aframes arg (Some p) st \<noteq> None"
    if "dtrace_arena st < max 1 (2 * length (dtrace_probes st))"
    using probe_create_inv [OF inv(1) assms(2,3) that assms(4-6), of prov aframes arg] by auto
  then have "dtrace_probe_create prov md func name aframes arg (Some p) st = None \<longleftrightarrow>
      \<not> dtrace_arena st < max 1 (2 * length (dtrace_probes st))"
    using probe_create_full by blast
  then show ?thesis using inv(2) by (simp only: not_less) linarith
qed

theorem dtrace_probe_create_lost_ids_witness:
  "\<exists>st. dtrace_probe_create 3 (Some [0x6D]) (Some [0x66]) (Some [0x6E]) 0 0 None demo_registered = Some (0, st) \<and>
    dtrace_probe_create 3 (Some [0x6D]) (Some [0x66]) (Some [0x6E]) 0 0 (Some 5) st = None"
proof -
  let ?st = "demo_registered\<lparr>dtrace_arena := 1\<rparr>"
  have lost: "dtrace_probe_create 3 (Some [0x6D]) (Some [0x66]) (Some [0x6E]) 0 0 None demo_registered = Some (0, ?st)"
    by (simp add: dtrace_probe_create_def vmem_alloc_def demo_registered INT_MAX_def)
  have "core_reachable 1 ?st" using core_reachable.lost [OF demo_registered(7) lost] by simp
  moreover have "5 \<notin> live ?st" "dtrace_arena ?st < INT_MAX" "dtrace_probes ?st = []"
    using demo_registered(2) by (simp_all add: live_def INT_MAX_def demo_registered)
  ultimately show ?thesis
    using dtrace_probe_create_lost_ids [of 1 ?st 5 "Some [0x6D]" "Some [0x66]" "Some [0x6E]" 3 0 0] lost
    by (auto simp: cstring_opt_def)
qed

text \<open>
  \<^bold>\<open>C12.\<close> Unregistering a registered provider either refuses with \<^verbatim>\<open>EBUSY\<close> and changes nothing, exactly when
  DTrace's own provider is not alone, the device is in use and the provider not invalidated, or one of its
  probes is enabled; or it succeeds, and then exactly the provider's probes are gone and the provider is off
  the chain. No assertion fails and no panic happens.
\<close>

theorem dtrace_unregister_correct:
  assumes "core_reachable k st" "pv \<in> set (dtrace_provider_list st)"
    "dtps_enable_nullop (provider_heap st pv) \<Longrightarrow> hd (dtrace_provider_list st) = pv"
  shows "if unregister_busy pv st then dtrace_unregister pv st = Some (EBUSY, st)
    else \<exists>st'. dtrace_unregister pv st = Some (0, st') \<and> core_reachable k st' \<and>
      live st' = {p \<in> live st. dtpr_provider (probe_heap st p) \<noteq> pv} \<and> pv \<notin> set (dtrace_provider_list st')"
proof (cases "unregister_busy pv st")
  case False
  have inv: "core_inv st" using assms(1) by (rule core_reachable_inv)
  then have "probe_inv st" by (simp add: core_inv_def)
  then obtain st' where st': "dtrace_unregister pv st = Some (0, st')"
    "live st' = {p \<in> live st. dtpr_provider (probe_heap st p) \<noteq> pv}"
    "dtrace_provider_list st' = remove1 pv (dtrace_provider_list st)"
    using unregister_inv [OF _ assms(2,3) False] by blast
  have "core_reachable k st'" using assms(1) unregister [OF st'(1)] by (rule step)
  then show ?thesis using False st' inv by (simp add: core_inv_def)
qed (simp add: unregister_cases [OF assms(2,3)])

theorem dtrace_unregister_correct_witness:
  "\<exists>st'. dtrace_unregister 3 demo_created = Some (0, st') \<and> live st' = {} \<and> 3 \<notin> set (dtrace_provider_list st')"
proof -
  have "\<not> unregister_busy 3 demo_created" by (simp add: unregister_busy_def demo_created demo_registered)
  then show ?thesis
    using dtrace_unregister_correct [of 0 demo_created 3] by (auto simp: demo_created demo_registered)
qed

end
