(* ===== verification/DT_Buffer.thy ===== *)
theory DT_Buffer
  imports DT_Prelude
begin

text \<open>
  Trace buffers (\<^verbatim>\<open>driver/dtrace.c\<close>, \<open>DTrace Buffer Functions\<close>): allocation, switching, the reservation of
  space under the three policies, and the polishing of a ring buffer before it is read.

  A buffer is a list of bytes, NULL is \<open>None\<close>. Offsets and sizes are natural numbers: they are bounded by
  the size of a buffer, and the one subtraction that can wrap is written out modulo \<open>2 ^ 64\<close>. A failed
  assertion or an access outside a buffer is \<open>None\<close>. Interrupt masking makes every function atomic on its
  CPU and has no other effect on this state.
\<close>

abbreviation (input) DTRACEBUF_RING :: u32 where "DTRACEBUF_RING \<equiv> 0x0001"
abbreviation (input) DTRACEBUF_FILL :: u32 where "DTRACEBUF_FILL \<equiv> 0x0002"
abbreviation (input) DTRACEBUF_NOSWITCH :: u32 where "DTRACEBUF_NOSWITCH \<equiv> 0x0004"
abbreviation (input) DTRACEBUF_WRAPPED :: u32 where "DTRACEBUF_WRAPPED \<equiv> 0x0008"
abbreviation (input) DTRACEBUF_DROPPED :: u32 where "DTRACEBUF_DROPPED \<equiv> 0x0010"
abbreviation (input) DTRACEBUF_ERROR :: u32 where "DTRACEBUF_ERROR \<equiv> 0x0020"
abbreviation (input) DTRACEBUF_FULL :: u32 where "DTRACEBUF_FULL \<equiv> 0x0040"
abbreviation (input) DTRACEBUF_CONSUMED :: u32 where "DTRACEBUF_CONSUMED \<equiv> 0x0080"
abbreviation (input) DTRACEBUF_INACTIVE :: u32 where "DTRACEBUF_INACTIVE \<equiv> 0x0100"

abbreviation (input) DTRACE_EPIDNONE :: nat where "DTRACE_EPIDNONE \<equiv> 0"

record dtrace_buffer =
  dtb_offset :: nat
  dtb_size :: nat
  dtb_flags :: u32
  dtb_drops :: u32
  dtb_tomax :: "u8 list option"
  dtb_xamot :: "u8 list option"
  dtb_xamot_flags :: u32
  dtb_xamot_drops :: u32
  dtb_xamot_offset :: nat
  dtb_errors :: u32
  dtb_xamot_errors :: u32

text \<open>
  What a reservation reads of the consumer state: for each enabled probe identifier the size of the
  records of its ECB (\<^verbatim>\<open>dts_ecbs[epid - 1]->dte_size\<close>, \<open>None\<close> for a NULL entry), whether the activity is
  \<^verbatim>\<open>DTRACE_ACTIVITY_COOLDOWN\<close>, and the space kept for the END probe.
\<close>

record dtrace_state =
  dts_ecbs :: "nat option list"
  dts_cooldown :: bool
  dts_reserve :: nat

definition buf_flag :: "u32 \<Rightarrow> dtrace_buffer \<Rightarrow> bool" where
  "buf_flag f buf \<longleftrightarrow> dtb_flags buf AND f \<noteq> 0"

section \<open>Bytes\<close>

definition load32 :: "u8 list \<Rightarrow> nat \<Rightarrow> nat option" where
  "load32 t w =
     (if w + 4 \<le> length t
      then Some (unat (t ! w) + 2 ^ 8 * unat (t ! (w + 1)) + 2 ^ 16 * unat (t ! (w + 2)) + 2 ^ 24 * unat (t ! (w + 3)))
      else None)"

definition store_bytes :: "u8 list \<Rightarrow> nat \<Rightarrow> u8 list \<Rightarrow> u8 list option" where
  "store_bytes t w bs = (if w + length bs \<le> length t then Some (take w t @ bs @ drop (w + length bs) t) else None)"

text \<open>Clearing bytes \<open>a\<close> to \<open>b - 1\<close>, by a loop or by \<^verbatim>\<open>bzero\<close>.\<close>

definition clear_bytes :: "u8 list \<Rightarrow> nat \<Rightarrow> nat \<Rightarrow> u8 list option" where
  "clear_bytes t a b = store_bytes t a (replicate (b - a) 0)"

section \<open>Allocation and switching\<close>

definition EFBIG :: nat where "EFBIG = 27"
definition ENOMEM :: nat where "ENOMEM = 12"

abbreviation (input) DTRACE_CPUALL :: int where "DTRACE_CPUALL \<equiv> -1"

text \<open>
  The loop over the CPUs: \<open>ok\<close> says which of the two allocations of a CPU succeed. The result says whether
  the loop ended without a jump to \<^verbatim>\<open>err\<close>.
\<close>

fun alloc_loop ::
  "nat \<Rightarrow> u32 \<Rightarrow> int \<Rightarrow> (nat \<Rightarrow> bool \<times> bool) \<Rightarrow> nat list \<Rightarrow> (nat \<Rightarrow> dtrace_buffer) \<Rightarrow> (bool \<times> (nat \<Rightarrow> dtrace_buffer)) option" where
  "alloc_loop sz flags cpu ok [] bufs = Some (True, bufs)"
| "alloc_loop sz flags cpu ok (cp # cps) bufs =
     (let buf = bufs cp in
      if cpu \<noteq> DTRACE_CPUALL \<and> cpu \<noteq> int cp then alloc_loop sz flags cpu ok cps bufs
      else if dtb_tomax buf \<noteq> None then
        (if dtb_size buf = sz then alloc_loop sz flags cpu ok cps bufs else None)
      else if dtb_xamot buf \<noteq> None then None
      else if \<not> fst (ok cp) then Some (False, bufs)
      else
        (let buf = buf\<lparr>dtb_tomax := Some (replicate sz 0), dtb_size := sz, dtb_flags := flags,
               dtb_offset := 0, dtb_drops := 0\<rparr> in
         if flags AND DTRACEBUF_NOSWITCH \<noteq> 0 then alloc_loop sz flags cpu ok cps (bufs(cp := buf))
         else if \<not> snd (ok cp) then Some (False, bufs(cp := buf))
         else alloc_loop sz flags cpu ok cps (bufs(cp := buf\<lparr>dtb_xamot := Some (replicate sz 0)\<rparr>))))"

fun alloc_undo :: "nat \<Rightarrow> int \<Rightarrow> nat list \<Rightarrow> (nat \<Rightarrow> dtrace_buffer) \<Rightarrow> (nat \<Rightarrow> dtrace_buffer) option" where
  "alloc_undo sz cpu [] bufs = Some bufs"
| "alloc_undo sz cpu (cp # cps) bufs =
     (let buf = bufs cp in
      if cpu \<noteq> DTRACE_CPUALL \<and> cpu \<noteq> int cp then alloc_undo sz cpu cps bufs
      else if dtb_xamot buf \<noteq> None \<and> (dtb_tomax buf = None \<or> dtb_size buf \<noteq> sz) then None
      else if dtb_tomax buf \<noteq> None \<and> dtb_size buf \<noteq> sz then None
      else alloc_undo sz cpu cps (bufs(cp := buf\<lparr>dtb_tomax := None, dtb_xamot := None, dtb_size := 0\<rparr>)))"

text \<open>\<open>privileged\<close> is the result of \<^verbatim>\<open>PRIV_POLICY_CHOICE\<close>, \<open>cpu_list\<close> the CPUs of the system.\<close>

definition dtrace_buffer_alloc ::
  "nat \<Rightarrow> bool \<Rightarrow> (nat \<Rightarrow> bool \<times> bool) \<Rightarrow> nat list \<Rightarrow> (nat \<Rightarrow> dtrace_buffer) \<Rightarrow> nat \<Rightarrow> u32 \<Rightarrow> int \<Rightarrow>
   (nat \<times> (nat \<Rightarrow> dtrace_buffer)) option" where
  "dtrace_buffer_alloc nonroot_maxsize privileged ok cpu_list bufs sz flags cpu =
     (if sz > nonroot_maxsize \<and> \<not> privileged then Some (EFBIG, bufs)
      else do {
        (ok1, bufs) \<leftarrow> alloc_loop sz flags cpu ok cpu_list bufs;
        if ok1 then Some (0, bufs)
        else do {
          bufs \<leftarrow> alloc_undo sz cpu cpu_list bufs;
          Some (ENOMEM, bufs)
        }
      })"

definition dtrace_buffer_free :: "dtrace_buffer \<Rightarrow> dtrace_buffer option" where
  "dtrace_buffer_free buf =
     (if dtb_tomax buf = None then (if dtb_xamot buf \<noteq> None \<or> dtb_size buf \<noteq> 0 then None else Some buf)
      else if dtb_xamot buf \<noteq> None \<and> buf_flag DTRACEBUF_NOSWITCH buf then None
      else Some (buf\<lparr>dtb_size := 0, dtb_tomax := None, dtb_xamot := None\<rparr>))"

definition dtrace_buffer_drop :: "dtrace_buffer \<Rightarrow> dtrace_buffer" where
  "dtrace_buffer_drop buf = buf\<lparr>dtb_drops := dtb_drops buf + 1\<rparr>"

definition dtrace_buffer_switch :: "dtrace_buffer \<Rightarrow> dtrace_buffer option" where
  "dtrace_buffer_switch buf =
     (if buf_flag DTRACEBUF_NOSWITCH buf \<or> buf_flag DTRACEBUF_RING buf then None
      else Some (buf\<lparr>dtb_tomax := dtb_xamot buf, dtb_xamot := dtb_tomax buf, dtb_xamot_drops := dtb_drops buf,
        dtb_xamot_offset := dtb_offset buf, dtb_xamot_errors := dtb_errors buf, dtb_xamot_flags := dtb_flags buf,
        dtb_offset := 0, dtb_drops := 0, dtb_errors := 0,
        dtb_flags := dtb_flags buf AND NOT (DTRACEBUF_ERROR OR DTRACEBUF_DROPPED)\<rparr>))"

definition dtrace_buffer_activate :: "dtrace_buffer \<Rightarrow> dtrace_buffer" where
  "dtrace_buffer_activate buf =
     (if dtb_tomax buf \<noteq> None then buf\<lparr>dtb_flags := dtb_flags buf AND NOT DTRACEBUF_INACTIVE\<rparr> else buf)"

section \<open>Reserving space\<close>

text \<open>The padding loops: identifiers \<^verbatim>\<open>DTRACE_EPIDNONE\<close> up to the alignment.\<close>

partial_function (option) pad_loop :: "nat \<Rightarrow> nat \<Rightarrow> u8 list \<Rightarrow> (nat \<times> u8 list) option" where
  "pad_loop align offs t =
     (if offs AND (align - 1) = 0 then Some (offs, t)
      else if (align - (offs AND (align - 1))) AND 3 \<noteq> 0 then None
      else do {
        t \<leftarrow> store_bytes t offs [0, 0, 0, 0];
        pad_loop align (offs + 4) t
      })"

text \<open>The size of the record at an offset.\<close>

definition rec_size :: "dtrace_state \<Rightarrow> u8 list \<Rightarrow> nat \<Rightarrow> nat option" where
  "rec_size st t w = do {
     epid \<leftarrow> load32 t w;
     if epid = DTRACE_EPIDNONE then Some 4
     else if epid > length (dts_ecbs st) then None
     else dts_ecbs st ! (epid - 1)
   }"

text \<open>
  The loop that moves the wrapped offset past the records that a reservation up to \<open>lim\<close> overwrites. The
  flag says whether it reached the end of the buffer.
\<close>

function woffs_loop :: "dtrace_state \<Rightarrow> nat \<Rightarrow> u8 list \<Rightarrow> nat \<Rightarrow> nat \<Rightarrow> (nat \<times> bool) option" where
  "woffs_loop st sz t lim w =
     (if lim \<le> w then Some (w, False)
      else
        (case rec_size st t w of
           None \<Rightarrow> None
         | Some n \<Rightarrow>
             if w + n > sz \<or> n = 0 then None
             else if w + n = sz then Some (0, True)
             else woffs_loop st sz t lim (w + n)))"
  by pat_completeness auto
termination
  by (relation "measure (\<lambda>(st, sz, t, lim, w). sz - w)") auto

declare woffs_loop.simps [simp del]

definition ring_reclaim :: "dtrace_state \<Rightarrow> dtrace_buffer \<Rightarrow> u8 list \<Rightarrow> nat \<Rightarrow> nat \<Rightarrow> nat \<Rightarrow> (dtrace_buffer \<times> u8 list) option" where
  "ring_reclaim st buf t offs needed woffs = do {
     (woffs, ended) \<leftarrow> woffs_loop st (dtb_size buf) t (offs + needed) woffs;
     if ended \<and> offs = 0 then do {
       t \<leftarrow> clear_bytes t needed (dtb_size buf);
       Some (buf\<lparr>dtb_flags := dtb_flags buf AND NOT DTRACEBUF_WRAPPED, dtb_offset := 0, dtb_xamot_offset := woffs\<rparr>, t)
     }
     else Some (buf\<lparr>dtb_xamot_offset := woffs\<rparr>, t)
   }"

text \<open>
  The adjustment of a ring buffer before the padding: the offset to store at, the buffer and its bytes, or
  \<open>Inl\<close> when the record does not fit at all.
\<close>

definition ring_adjust ::
  "dtrace_state \<Rightarrow> dtrace_buffer \<Rightarrow> u8 list \<Rightarrow> nat \<Rightarrow> nat \<Rightarrow> (dtrace_buffer + nat \<times> dtrace_buffer \<times> u8 list) option" where
  "ring_adjust st buf t needed align =
     (let offs = dtb_offset buf; total_needed = needed + (offs AND (align - 1)); woffs = dtb_xamot_offset buf in
      if offs + total_needed > dtb_size buf then
        (if total_needed > dtb_size buf then Some (Inl (dtrace_buffer_drop buf))
         else do {
           let woffs = (if buf_flag DTRACEBUF_WRAPPED buf then (if woffs \<ge> offs then 0 else woffs) else 0);
           t \<leftarrow> clear_bytes t offs (dtb_size buf);
           (buf, t) \<leftarrow> ring_reclaim st (buf\<lparr>dtb_flags := dtb_flags buf OR DTRACEBUF_WRAPPED\<rparr>) t 0 needed woffs;
           Some (Inr (0, buf, t))
         })
      else if buf_flag DTRACEBUF_WRAPPED buf \<and> \<not> woffs < offs then do {
        (buf, t) \<leftarrow> ring_reclaim st buf t offs total_needed woffs;
        Some (Inr (offs, buf, t))
      }
      else Some (Inr (offs, buf, t)))"

text \<open>Where scratch space is: behind the reservation in the active buffer, or the inactive buffer.\<close>

datatype scratch = Scratch_tomax nat nat | Scratch_xamot nat

definition reserve_out ::
  "dtrace_state \<Rightarrow> bool \<Rightarrow> dtrace_buffer \<Rightarrow> u8 list \<Rightarrow> nat \<Rightarrow> nat \<Rightarrow> nat \<Rightarrow> (int \<times> dtrace_buffer \<times> scratch option) option" where
  "reserve_out st mstate buf t offs needed align = do {
     (offs, t) \<leftarrow> pad_loop align offs t;
     let buf = buf\<lparr>dtb_tomax := Some t\<rparr>;
     if buf_flag DTRACEBUF_FILL buf \<and> offs + needed > (dtb_size buf + 2 ^ 64 - dts_reserve st) mod 2 ^ 64
     then Some (-1, buf\<lparr>dtb_flags := dtb_flags buf OR DTRACEBUF_FULL\<rparr>, None)
     else Some (int offs, buf, if mstate then Some (Scratch_xamot (dtb_size buf)) else None)
   }"

definition dtrace_buffer_reserve ::
  "dtrace_state \<Rightarrow> bool \<Rightarrow> dtrace_buffer \<Rightarrow> nat \<Rightarrow> nat \<Rightarrow> (int \<times> dtrace_buffer \<times> scratch option) option" where
  "dtrace_buffer_reserve st mstate buf needed align =
     (if buf_flag DTRACEBUF_INACTIVE buf then Some (-1, buf, None)
      else
        (case dtb_tomax buf of
           None \<Rightarrow> Some (-1, dtrace_buffer_drop buf, None)
         | Some t \<Rightarrow>
             if \<not> buf_flag (DTRACEBUF_RING OR DTRACEBUF_FILL) buf then do {
               (offs, t) \<leftarrow> pad_loop align (dtb_offset buf) t;
               let buf = buf\<lparr>dtb_tomax := Some t\<rparr>;
               let soffs = offs + needed;
               if soffs > dtb_size buf then Some (-1, dtrace_buffer_drop buf, None)
               else Some (int offs, buf, if mstate then Some (Scratch_tomax soffs (dtb_size buf - soffs)) else None)
             }
             else if buf_flag DTRACEBUF_FILL buf then
               (if \<not> dts_cooldown st \<and> buf_flag DTRACEBUF_FULL buf then Some (-1, buf, None)
                else reserve_out st mstate buf t (dtb_offset buf) needed align)
             else
               (case ring_adjust st buf t needed align of
                  None \<Rightarrow> None
                | Some (Inl buf) \<Rightarrow> Some (-1, buf, None)
                | Some (Inr (offs, buf, t)) \<Rightarrow> reserve_out st mstate buf t offs needed align)))"

section \<open>Polishing\<close>

definition dtrace_buffer_polish :: "dtrace_buffer \<Rightarrow> dtrace_buffer option" where
  "dtrace_buffer_polish buf =
     (if \<not> buf_flag DTRACEBUF_RING buf then None
      else if \<not> buf_flag DTRACEBUF_WRAPPED buf then Some buf
      else do {
        t \<leftarrow> dtb_tomax buf;
        let offs = dtb_offset buf;
        let woffs = dtb_xamot_offset buf;
        t \<leftarrow> (if offs < woffs then clear_bytes t offs woffs else Some t);
        t \<leftarrow> (if offs > woffs then Option.bind (clear_bytes t offs (dtb_size buf)) (\<lambda>t. clear_bytes t 0 woffs) else Some t);
        Some (buf\<lparr>dtb_tomax := Some t\<rparr>)
      })"

section \<open>Recording\<close>

text \<open>
  What \<^verbatim>\<open>dtrace_probe\<close> does with a reservation: the identifier and the values are stored from \<open>offs\<close> on, and
  when no predicate failed and no error occurred the offset moves past the record.
\<close>

definition buf_store :: "dtrace_buffer \<Rightarrow> nat \<Rightarrow> u8 list \<Rightarrow> dtrace_buffer option" where
  "buf_store buf offs bs = do {
     t \<leftarrow> dtb_tomax buf;
     t \<leftarrow> store_bytes t offs bs;
     Some (buf\<lparr>dtb_tomax := Some t\<rparr>)
   }"

definition buf_commit :: "dtrace_buffer \<Rightarrow> nat \<Rightarrow> u8 list \<Rightarrow> nat \<Rightarrow> dtrace_buffer option" where
  "buf_commit buf offs bs n = map_option (\<lambda>buf. buf\<lparr>dtb_offset := offs + n\<rparr>) (buf_store buf offs bs)"

end
