(* ===== verification/DT_Ring.thy ===== *)
theory DT_Ring
  imports DT_Buffer
begin

text \<open>
  Ring buffers. The bytes of a buffer are a sequence of records, each with the identifier of an ECB and the
  size of that ECB's records, or padding with the identifier 0. The invariant says which parts of a ring are
  such sequences; every reservation that ends in a complete record keeps it, so what a consumer reads of a
  polished ring is a sequence of whole records.
\<close>

section \<open>Sequences of records\<close>

inductive records :: "dtrace_state \<Rightarrow> u8 list \<Rightarrow> nat \<Rightarrow> nat \<Rightarrow> bool" for st t where
  none: "records st t a a"
| more: "rec_size st t a = Some n \<Longrightarrow> 0 < n \<Longrightarrow> records st t (a + n) b \<Longrightarrow> records st t a b"

definition ecbs_ok :: "dtrace_state \<Rightarrow> bool" where
  "ecbs_ok st \<longleftrightarrow> (\<forall>n. Some n \<in> set (dts_ecbs st) \<longrightarrow> n mod 4 = 0)"

lemma store_bytes_SomeD:
  assumes "store_bytes t w bs = Some t'"
  shows "w + length bs \<le> length t" "length t' = length t"
    "i < length t \<Longrightarrow> t' ! i = (if w \<le> i \<and> i < w + length bs then bs ! (i - w) else t ! i)"
  using assms by (auto simp: store_bytes_def nth_append split: if_splits)

lemma clear_bytes_SomeD:
  assumes "clear_bytes t a b = Some t'"
  shows "length t' = length t" "i < length t \<Longrightarrow> t' ! i = (if a \<le> i \<and> i < b then 0 else t ! i)"
  using store_bytes_SomeD [OF assms [unfolded clear_bytes_def]] by auto

lemma clear_bytes_ok: "a \<le> b \<Longrightarrow> b \<le> length t \<Longrightarrow> \<exists>t'. clear_bytes t a b = Some t'"
  by (simp add: clear_bytes_def store_bytes_def)

lemma rec_size_mod4:
  assumes "ecbs_ok st" "rec_size st t a = Some n"
  shows "n mod 4 = 0"
proof -
  obtain epid where e: "(if epid = 0 then Some 4 else if epid > length (dts_ecbs st) then None else dts_ecbs st ! (epid - 1)) = Some n"
    using assms(2) by (auto simp: rec_size_def elim!: do_elims)
  show ?thesis
  proof (cases "epid = 0")
    case False
    then have "epid - 1 < length (dts_ecbs st)" "dts_ecbs st ! (epid - 1) = Some n" using e by (auto split: if_splits)
    then show ?thesis using assms(1) nth_mem unfolding ecbs_ok_def by metis
  qed (use e in simp)
qed

lemma rec_size_cong:
  assumes "length t' = length t" "\<And>i. a \<le> i \<Longrightarrow> i < a + 4 \<Longrightarrow> t' ! i = t ! i"
  shows "rec_size st t' a = rec_size st t a"
  using assms by (simp add: rec_size_def load32_def)

lemma rec_size_zero:
  assumes "a + 4 \<le> length t" "\<And>i. a \<le> i \<Longrightarrow> i < a + 4 \<Longrightarrow> t ! i = 0"
  shows "rec_size st t a = Some 4"
  using assms by (simp add: rec_size_def load32_def)

lemma records_le: "records st t a b \<Longrightarrow> a \<le> b"
  by (induction rule: records.induct) auto

lemma records_mod4: "records st t a b \<Longrightarrow> ecbs_ok st \<Longrightarrow> a mod 4 = b mod 4"
proof (induction rule: records.induct)
  case (more a n b)
  have "n mod 4 = 0" using rec_size_mod4 more.prems more.hyps(1) by blast
  then show ?case using more.IH [OF more.prems] by (metis add.right_neutral mod_add_right_eq)
qed simp

lemma records_trans: "records st t a b \<Longrightarrow> records st t b c \<Longrightarrow> records st t a c"
  by (induction rule: records.induct) (auto intro: records.intros)

lemma records_det: "records st t a b \<Longrightarrow> records st t a c \<Longrightarrow> b \<le> c \<Longrightarrow> records st t b c"
proof (induction rule: records.induct)
  case (more a n b)
  have "a \<noteq> c" using more.hyps(2,3) more.prems(2) records_le by fastforce
  then have "records st t (a + n) c" using more.prems(1) more.hyps(1) by (auto elim: records.cases)
  then show ?case using more.IH more.prems(2) by blast
qed simp

lemma records_frame:
  assumes "records st t a b" "ecbs_ok st" "length t' = length t" "\<And>i. a \<le> i \<Longrightarrow> i < b \<Longrightarrow> t' ! i = t ! i"
  shows "records st t' a b"
  using assms
proof (induction rule: records.induct)
  case (more a n b)
  have n: "n mod 4 = 0" using rec_size_mod4 more.prems(1) more.hyps(1) by blast
  then have "4 \<le> n" using more.hyps(2) by presburger
  moreover have "a + n \<le> b" using more.hyps(3) records_le by blast
  ultimately have "rec_size st t' a = Some n" using more.hyps(1) more.prems(2,3) by (subst rec_size_cong [of t' t]) auto
  moreover have "records st t' (a + n) b" using more.IH more.prems by simp
  ultimately show ?case by (rule records.more [OF _ more.hyps(2)])
qed (rule records.none)

lemma records_zero:
  "(\<And>i. a \<le> i \<Longrightarrow> i < a + 4 * k \<Longrightarrow> t ! i = 0) \<Longrightarrow> a + 4 * k \<le> length t \<Longrightarrow> records st t a (a + 4 * k)"
proof (induction k arbitrary: a)
  case (Suc k)
  have "rec_size st t a = Some 4" using Suc.prems by (intro rec_size_zero) auto
  moreover have "records st t (a + 4) (a + 4 + 4 * k)" using Suc.prems by (intro Suc.IH) auto
  ultimately show ?case by (auto intro: records.more simp: algebra_simps)
qed (simp add: records.none)

lemma records_zero':
  assumes "\<And>i. a \<le> i \<Longrightarrow> i < b \<Longrightarrow> t ! i = 0" "a \<le> b" "b \<le> length t" "a mod 4 = b mod 4"
  shows "records st t a b"
proof -
  obtain k where "b = a + 4 * k" using assms(2,4) mod_eq_nat1E [of b 4 a] by auto
  then show ?thesis using assms records_zero [of a k t st] by simp
qed

lemma records_shift:
  assumes "records st bs a b" "ecbs_ok st" "b \<le> length bs" "offs + length bs \<le> length t" "\<And>i. i < length bs \<Longrightarrow> t ! (offs + i) = bs ! i"
  shows "records st t (offs + a) (offs + b)"
  using assms
proof (induction rule: records.induct)
  case (more a n b)
  have n: "n mod 4 = 0" using rec_size_mod4 more.prems(1) more.hyps(1) by blast
  then have "4 \<le> n" using more.hyps(2) by presburger
  moreover have "a + n \<le> b" using more.hyps(3) records_le by blast
  ultimately have "a + 4 \<le> length bs" using more.prems(2) by simp
  then have "load32 t (offs + a) = load32 bs a"
    using more.prems(3) more.prems(4) [of a] more.prems(4) [of "a + 1"] more.prems(4) [of "a + 2"] more.prems(4) [of "a + 3"]
    by (simp add: load32_def add.assoc)
  then have "rec_size st t (offs + a) = Some n" using more.hyps(1) by (simp add: rec_size_def)
  moreover have "records st t (offs + a + n) (offs + b)" using more.IH more.prems by (simp add: add.assoc)
  ultimately show ?case by (rule records.more [OF _ more.hyps(2)])
qed (rule records.none)

section \<open>The ring invariant\<close>

text \<open>
  \<open>ring_ok st t sz off w wr\<close>: in a ring that has not wrapped the bytes up to the offset are records. In one
  that has wrapped, the records from the wrapped offset to the end of the buffer are the oldest and those
  from 0 to the offset the newest; when the wrapped offset is below the offset, only those in between are.
\<close>

definition ring_ok :: "dtrace_state \<Rightarrow> u8 list \<Rightarrow> nat \<Rightarrow> nat \<Rightarrow> nat \<Rightarrow> bool \<Rightarrow> bool" where
  "ring_ok st t sz off w wr \<longleftrightarrow> length t = sz \<and> sz mod 8 = 0 \<and> off \<le> sz \<and> off mod 4 = 0 \<and>
     (if \<not> wr then records st t 0 off
      else if off \<le> w then w \<le> sz \<and> records st t 0 off \<and> records st t w sz
      else records st t w off)"

definition ring_inv :: "dtrace_state \<Rightarrow> dtrace_buffer \<Rightarrow> bool" where
  "ring_inv st buf \<longleftrightarrow> buf_flag DTRACEBUF_RING buf \<and> \<not> buf_flag DTRACEBUF_FILL buf \<and>
     (\<exists>t. dtb_tomax buf = Some t \<and>
       ring_ok st t (dtb_size buf) (dtb_offset buf) (dtb_xamot_offset buf) (buf_flag DTRACEBUF_WRAPPED buf))"

text \<open>
  What a reservation of the bytes from \<open>offs\<close> to \<open>lim\<close> leaves: a record stored there continues the newest
  records and destroys none of the others.
\<close>

definition space_ok :: "dtrace_state \<Rightarrow> u8 list \<Rightarrow> nat \<Rightarrow> nat \<Rightarrow> nat \<Rightarrow> nat \<Rightarrow> bool \<Rightarrow> bool" where
  "space_ok st t sz offs lim w wr \<longleftrightarrow> length t = sz \<and> sz mod 8 = 0 \<and> offs \<le> lim \<and> lim \<le> sz \<and> offs mod 4 = 0 \<and>
     (if \<not> wr then records st t 0 offs
      else if w < offs then records st t w offs
      else lim \<le> w \<and> w \<le> sz \<and> records st t 0 offs \<and> records st t w sz)"

text \<open>The same when the record is not completed and the offset \<open>off\<close> does not move.\<close>

definition abandon_ok :: "dtrace_state \<Rightarrow> u8 list \<Rightarrow> nat \<Rightarrow> nat \<Rightarrow> nat \<Rightarrow> nat \<Rightarrow> nat \<Rightarrow> bool \<Rightarrow> bool" where
  "abandon_ok st t sz off offs lim w wr \<longleftrightarrow> length t = sz \<and> sz mod 8 = 0 \<and> off \<le> sz \<and> off mod 4 = 0 \<and> lim \<le> sz \<and>
     (if \<not> wr then records st t 0 off \<and> off \<le> offs
      else if w < off then records st t w off \<and> (off \<le> offs \<or> lim \<le> w)
      else off \<le> offs \<and> lim \<le> w \<and> w \<le> sz \<and> records st t 0 off \<and> records st t w sz)"

lemma space_ok_commit:
  assumes "space_ok st t sz offs lim w wr" "ecbs_ok st" "store_bytes t offs bs = Some t'" "offs + length bs \<le> lim"
    and "records st bs 0 n" "n \<le> length bs"
  shows "ring_ok st t' sz (offs + n) w wr"
proof -
  note t' = store_bytes_SomeD [OF assms(3)]
  have len: "length t = sz" using assms(1) by (simp add: space_ok_def)
  have new: "records st t' offs (offs + n)"
    using records_shift [OF assms(5,2,6), of offs t'] t' by simp
  have n: "n mod 4 = 0" using records_mod4 [OF assms(5,2)] by simp
  have frame: "records st t' a b" if "records st t a b" "b \<le> offs \<or> lim \<le> a \<and> b \<le> sz" for a b
    using that assms(2,4) t' len by (intro records_frame [of st t a b t']) auto
  have "records st t' a (offs + n)" if "records st t a offs" for a
    using records_trans [OF frame [OF that] new] by simp
  moreover have "offs mod 4 = 0" using assms(1) by (simp add: space_ok_def)
  then have "(offs + n) mod 4 = 0" using n by presburger
  ultimately show ?thesis using assms(1,4,6) frame t'(2) unfolding space_ok_def ring_ok_def by (auto split: if_splits)
qed

lemma abandon_ok_store:
  assumes "abandon_ok st t sz off offs lim w wr" "ecbs_ok st" "store_bytes t offs bs = Some t'" "offs + length bs \<le> lim"
  shows "ring_ok st t' sz off w wr"
proof -
  note t' = store_bytes_SomeD [OF assms(3)]
  have "length t = sz" using assms(1) by (simp add: abandon_ok_def)
  then have frame: "records st t' a b" if "records st t a b" "b \<le> offs \<or> lim \<le> a" "b \<le> sz" for a b
    using that assms(2,4) t' by (intro records_frame [of st t a b t']) auto
  show ?thesis using assms(1) frame t'(2) unfolding abandon_ok_def ring_ok_def by (auto split: if_splits)
qed

lemma woffs_loop_ok:
  assumes "records st t w sz" "lim \<le> sz"
  shows "(\<exists>w'. woffs_loop st sz t lim w = Some (w', False) \<and> lim \<le> w' \<and> w' \<le> sz \<and> records st t w w' \<and> records st t w' sz) \<or>
    woffs_loop st sz t lim w = Some (0, True) \<and> w < lim"
  using assms
proof (induction w sz rule: records.induct)
  case (none a)
  then show ?case by (subst woffs_loop.simps) (auto intro: records.none)
next
  case (more a n b)
  have ab: "a + n \<le> b" using more.hyps(3) by (rule records_le)
  consider "lim \<le> a" | "a < lim" "a + n = b" | "a < lim" "a + n < b" using ab by linarith
  then show ?case
  proof cases
    case 1
    then show ?thesis
      using records.more [OF more.hyps] ab by (subst (1) woffs_loop.simps) (auto intro: records.none)
  next
    case 2
    then show ?thesis using more.hyps by (subst (2) woffs_loop.simps) simp
  next
    case 3
    then have step: "woffs_loop st b t lim a = woffs_loop st b t lim (a + n)"
      using more.hyps by (subst woffs_loop.simps) simp
    show ?thesis using more.IH [OF more.prems] 3 unfolding step
      by (auto intro: records.more [OF more.hyps(1,2)])
  qed
qed

lemma pad_loop_ok:
  assumes "align = 4 \<or> align = 8" "offs mod 4 = 0" "offs \<le> length t" "length t mod 8 = 0"
  shows "\<exists>t'. pad_loop align offs t = Some (offs + offs mod align, t') \<and> length t' = length t \<and>
    (\<forall>i < length t. t' ! i = (if offs \<le> i \<and> i < offs + offs mod align then 0 else t ! i)) \<and>
    (offs + offs mod align) mod align = 0 \<and> offs + offs mod align \<le> length t"
proof (cases "offs mod align = 0")
  case True
  then have "offs AND (align - 1) = 0" using assms(1) and_exp_minus_1 [of offs 2] and_exp_minus_1 [of offs 3] by auto
  then show ?thesis using True assms(3) by (subst pad_loop.simps) auto
next
  case False
  have align: "align = 8" using False assms(1,2) by auto
  moreover have "offs mod 8 \<noteq> 0 \<Longrightarrow> offs mod 8 = 4" using assms(2) by presburger
  ultimately have al: "align = 8" "offs mod 8 = 4" using False by simp_all
  have "offs + 4 \<le> length t" using al(2) assms(3,4) by presburger
  then obtain t' where t': "store_bytes t offs [0, 0, 0, 0] = Some t'" by (simp add: store_bytes_def)
  have and7: "m AND 7 = m mod 8" for m :: nat using and_exp_minus_1 [of m 3] by simp
  have "(offs + 4) mod 8 = 0" using al(2) by presburger
  then have "pad_loop 8 (offs + 4) t' = Some (offs + 4, t')" by (subst pad_loop.simps) (simp add: and7)
  moreover have "(4 :: nat) AND 3 = 0" using and_exp_minus_1 [of 4 2] by simp
  ultimately have "pad_loop 8 offs t = Some (offs + 4, t')" using al(2) t' by (subst pad_loop.simps) (simp add: and7)
  moreover have "t' ! i = (if offs \<le> i \<and> i < offs + 4 then 0 else t ! i)" if "i < length t" for i
  proof -
    have "[0, 0, 0, 0 :: u8] ! (i - offs) = 0" if "i < offs + 4" using that by (auto simp: nth_Cons split: nat.splits)
    then show ?thesis using store_bytes_SomeD(3) [OF t' that] by simp
  qed
  ultimately show ?thesis using al \<open>offs + 4 \<le> length t\<close> \<open>(offs + 4) mod 8 = 0\<close> store_bytes_SomeD(2) [OF t'] by simp
qed

lemma space_ok_pad:
  assumes "space_ok st t sz offs lim w wr" "ecbs_ok st" "length t' = length t" "offs + p \<le> lim" "p mod 4 = 0"
    and "\<forall>i < length t. t' ! i = (if offs \<le> i \<and> i < offs + p then 0 else t ! i)"
  shows "space_ok st t' sz (offs + p) lim w wr"
proof -
  have sz: "lim \<le> sz" "length t = sz" "offs mod 4 = 0" using assms(1) by (auto simp: space_ok_def)
  have p: "(offs + p) mod 4 = 0" "offs mod 4 = (offs + p) mod 4" using assms(5) sz(3) by presburger+
  have pad: "records st t' offs (offs + p)" using assms(3,4,6) sz p by (intro records_zero') auto
  have frame: "records st t' a b" if "records st t a b" "b \<le> offs \<or> lim \<le> a \<and> b \<le> sz" for a b
    using that assms(2-4,6) sz by (intro records_frame [of st t a b t']) auto
  have "records st t' a (offs + p)" if "records st t a offs" for a
    using records_trans [OF frame [OF that] pad] by simp
  then show ?thesis using assms(1,3,4) frame p(1) unfolding space_ok_def by (auto split: if_splits)
qed

lemma abandon_ok_pad:
  assumes "abandon_ok st t sz off offs lim w wr" "ecbs_ok st" "length t' = length t" "offs + p \<le> lim"
    and "\<forall>i < length t. t' ! i = (if offs \<le> i \<and> i < offs + p then 0 else t ! i)"
  shows "abandon_ok st t' sz off (offs + p) lim w wr"
proof -
  have sz: "lim \<le> sz" "length t = sz" using assms(1) by (auto simp: abandon_ok_def)
  have frame: "records st t' a b" if "records st t a b" "b \<le> offs \<or> lim \<le> a" "b \<le> sz" for a b
    using that assms(2-5) sz by (intro records_frame [of st t a b t']) auto
  show ?thesis using assms(1,3,4) frame unfolding abandon_ok_def by (auto split: if_splits)
qed

lemma ring_reclaim_ok:
  assumes "records st t w sz" "length t = sz" "dtb_size buf = sz" "offs + needed \<le> sz"
  shows "(\<exists>w'. ring_reclaim st buf t offs needed w = Some (buf\<lparr>dtb_xamot_offset := w'\<rparr>, t) \<and>
      offs + needed \<le> w' \<and> w' \<le> sz \<and> records st t w w' \<and> records st t w' sz) \<or>
    0 < offs \<and> ring_reclaim st buf t offs needed w = Some (buf\<lparr>dtb_xamot_offset := 0\<rparr>, t) \<or>
    offs = 0 \<and> (\<exists>t'. ring_reclaim st buf t offs needed w = Some (buf\<lparr>dtb_flags := dtb_flags buf AND NOT DTRACEBUF_WRAPPED,
      dtb_offset := 0, dtb_xamot_offset := 0\<rparr>, t') \<and> length t' = sz)"
  using woffs_loop_ok [OF assms(1,4)]
proof (elim disjE exE conjE)
  fix w' assume "woffs_loop st sz t (offs + needed) w = Some (w', False)" "offs + needed \<le> w'" "w' \<le> sz"
    "records st t w w'" "records st t w' sz"
  then show ?thesis using assms(3) by (intro disjI1 exI [of _ w']) (simp add: ring_reclaim_def)
next
  assume ended: "woffs_loop st sz t (offs + needed) w = Some (0, True)"
  show ?thesis
  proof (cases "offs = 0")
    case True
    then obtain t' where t': "clear_bytes t needed sz = Some t'" using clear_bytes_ok [of needed sz t] assms(2,4) by auto
    then show ?thesis using True ended assms(2,3) clear_bytes_SomeD(1) [OF t'] by (simp add: ring_reclaim_def)
  qed (use ended assms(3) in \<open>simp add: ring_reclaim_def\<close>)
qed

lemma buf_flag_simps [simp]:
  "buf_flag f (buf\<lparr>dtb_xamot_offset := w\<rparr>) = buf_flag f buf" "buf_flag f (buf\<lparr>dtb_offset := n\<rparr>) = buf_flag f buf"
  "buf_flag f (buf\<lparr>dtb_tomax := b\<rparr>) = buf_flag f buf" "buf_flag f (dtrace_buffer_drop buf) = buf_flag f buf"
  by (simp_all add: buf_flag_def dtrace_buffer_drop_def)

text \<open>The adjustment without and with a wrap.\<close>

lemma ring_adjust_stay:
  assumes ok: "ring_ok st t sz off w (buf_flag DTRACEBUF_WRAPPED buf)" and ecbs: "ecbs_ok st"
    and al: "align = 4 \<or> align = 8" and buf: "dtb_size buf = sz" "dtb_offset buf = off" "dtb_xamot_offset buf = w"
    and fits: "off + (needed + off mod align) \<le> sz"
  shows "\<exists>buf' t'. ring_adjust st buf t needed align = Some (Inr (dtb_offset buf', buf', t')) \<and>
    dtb_size buf' = sz \<and> buf_flag DTRACEBUF_RING buf' = buf_flag DTRACEBUF_RING buf \<and>
    buf_flag DTRACEBUF_FILL buf' = buf_flag DTRACEBUF_FILL buf \<and>
    space_ok st t' sz (dtb_offset buf') (dtb_offset buf' + (needed + dtb_offset buf' mod align)) (dtb_xamot_offset buf')
      (buf_flag DTRACEBUF_WRAPPED buf') \<and>
    abandon_ok st t' sz (dtb_offset buf') (dtb_offset buf') (dtb_offset buf' + (needed + dtb_offset buf' mod align))
      (dtb_xamot_offset buf') (buf_flag DTRACEBUF_WRAPPED buf')"
proof -
  have and_al: "off AND (align - 1) = off mod align"
    using al and_exp_minus_1 [of off 2] and_exp_minus_1 [of off 3] by auto
  show ?thesis
  proof (cases "buf_flag DTRACEBUF_WRAPPED buf \<and> off \<le> w")
    case False
    then have "ring_adjust st buf t needed align = Some (Inr (off, buf, t))"
      using fits by (auto simp: ring_adjust_def Let_def buf and_al[simplified])
    then show ?thesis
      using False ok fits unfolding ring_ok_def space_ok_def abandon_ok_def
      by (intro exI [of _ buf] exI [of _ t]) (auto simp: buf split: if_splits)
  next
    case True
    then have rec: "records st t w sz" "records st t 0 off" "length t = sz" "sz mod 8 = 0" "off mod 4 = 0"
      using ok by (auto simp: ring_ok_def)
    have adj: "ring_adjust st buf t needed align = Option.bind (ring_reclaim st buf t off (needed + off mod align) w) (\<lambda>(buf, t). Some (Inr (off, buf, t)))"
      using True fits by (simp add: ring_adjust_def Let_def buf and_al[simplified])
    from ring_reclaim_ok [OF rec(1,3) buf(1) fits]
    show ?thesis
    proof (elim disjE exE conjE)
      fix w' assume w': "ring_reclaim st buf t off (needed + off mod align) w = Some (buf\<lparr>dtb_xamot_offset := w'\<rparr>, t)"
        "off + (needed + off mod align) \<le> w'" "w' \<le> sz" "records st t w' sz"
      then show ?thesis
        using rec True adj fits
        by (intro exI [of _ "buf\<lparr>dtb_xamot_offset := w'\<rparr>"] exI [of _ t]) (simp add: buf space_ok_def abandon_ok_def)
    next
      assume "0 < off" "ring_reclaim st buf t off (needed + off mod align) w = Some (buf\<lparr>dtb_xamot_offset := 0\<rparr>, t)"
      then show ?thesis
        using rec True adj fits
        by (intro exI [of _ "buf\<lparr>dtb_xamot_offset := 0\<rparr>"] exI [of _ t]) (simp add: buf space_ok_def abandon_ok_def)
    next
      fix t' assume t': "off = 0" "length t' = sz" "ring_reclaim st buf t off (needed + off mod align) w =
        Some (buf\<lparr>dtb_flags := dtb_flags buf AND NOT DTRACEBUF_WRAPPED, dtb_offset := 0, dtb_xamot_offset := 0\<rparr>, t')"
      let ?buf = "buf\<lparr>dtb_flags := dtb_flags buf AND NOT DTRACEBUF_WRAPPED, dtb_offset := 0, dtb_xamot_offset := 0\<rparr>"
      have "\<not> buf_flag DTRACEBUF_WRAPPED ?buf" "buf_flag DTRACEBUF_RING ?buf = buf_flag DTRACEBUF_RING buf"
        "buf_flag DTRACEBUF_FILL ?buf = buf_flag DTRACEBUF_FILL buf"
        using flag_clear_self [of "dtb_flags buf" 8] flag_clear [of 8 1 "dtb_flags buf"] flag_clear [of 8 2 "dtb_flags buf"]
        by (simp_all add: buf_flag_def)
      then show ?thesis
        using t' rec adj fits
        by (intro exI [of _ ?buf] exI [of _ t']) (simp add: buf space_ok_def abandon_ok_def records.none)
    qed
  qed
qed

lemma ring_adjust_wrap:
  assumes ok: "ring_ok st t sz off w (buf_flag DTRACEBUF_WRAPPED buf)" and ecbs: "ecbs_ok st"
    and al: "align = 4 \<or> align = 8" and buf: "dtb_size buf = sz" "dtb_offset buf = off" "dtb_xamot_offset buf = w"
    and wrap: "off + (needed + off mod align) > sz" "needed + off mod align \<le> sz"
  shows "\<exists>buf' t'. ring_adjust st buf t needed align = Some (Inr (0, buf', t')) \<and>
    dtb_size buf' = sz \<and> buf_flag DTRACEBUF_RING buf' = buf_flag DTRACEBUF_RING buf \<and>
    buf_flag DTRACEBUF_FILL buf' = buf_flag DTRACEBUF_FILL buf \<and>
    space_ok st t' sz 0 needed (dtb_xamot_offset buf') (buf_flag DTRACEBUF_WRAPPED buf') \<and>
    (dtb_offset buf' = 0 \<or> \<not> buf_flag DTRACEBUF_WRAPPED buf' \<or> dtb_xamot_offset buf' < dtb_offset buf' \<longrightarrow>
     abandon_ok st t' sz (dtb_offset buf') 0 needed (dtb_xamot_offset buf') (buf_flag DTRACEBUF_WRAPPED buf'))"
proof -
  have and_al: "off AND (align - 1) = off mod align"
    using al and_exp_minus_1 [of off 2] and_exp_minus_1 [of off 3] by auto
  have len: "length t = sz" "sz mod 8 = 0" "off \<le> sz" "off mod 4 = 0" using ok by (auto simp: ring_ok_def)
  have mod4: "off mod 4 = sz mod 4" using len(2,4) by presburger
  define start where "start = (if buf_flag DTRACEBUF_WRAPPED buf then if w \<ge> off then 0 else w else 0)"
  obtain t1 where t1: "clear_bytes t off sz = Some t1" using clear_bytes_ok [of off sz t] len by auto
  have zero: "records st t1 off sz" using clear_bytes_SomeD [OF t1] len mod4 by (intro records_zero') auto
  have start: "records st t start off" using ok by (auto simp: ring_ok_def start_def split: if_splits)
  have old: "records st t1 start off"
    by (rule records_frame [OF start ecbs]) (use clear_bytes_SomeD [OF t1] len(1,3) in simp_all)
  have all: "records st t1 start sz" using records_trans [OF old zero] .
  let ?buf = "buf\<lparr>dtb_flags := dtb_flags buf OR DTRACEBUF_WRAPPED\<rparr>"
  have fl: "buf_flag DTRACEBUF_WRAPPED ?buf" "buf_flag DTRACEBUF_RING ?buf = buf_flag DTRACEBUF_RING buf"
    "buf_flag DTRACEBUF_FILL ?buf = buf_flag DTRACEBUF_FILL buf"
    by (simp_all add: buf_flag_def flag_simps)
  have adj: "ring_adjust st buf t needed align =
      Option.bind (ring_reclaim st ?buf t1 0 needed start) (\<lambda>(buf, t). Some (Inr (0, buf, t)))"
    using wrap t1 by (simp add: ring_adjust_def Let_def buf and_al [simplified] start_def [symmetric])
  have "length t1 = sz" "dtb_size ?buf = sz" "0 + needed \<le> sz" using clear_bytes_SomeD(1) [OF t1] len(1) buf(1) wrap(2) by simp_all
  from ring_reclaim_ok [OF all this]
  show ?thesis
  proof (elim disjE exE conjE)
    fix w' assume w': "ring_reclaim st ?buf t1 0 needed start = Some (?buf\<lparr>dtb_xamot_offset := w'\<rparr>, t1)"
      "0 + needed \<le> w'" "w' \<le> sz" "records st t1 start w'" "records st t1 w' sz"
    have "records st t1 w' off" if "w' < off" using records_det [OF w'(4) old] that by simp
    moreover have "off \<noteq> 0" using wrap linorder_not_less [of "needed + off mod align" sz] by (intro notI) simp
    ultimately show ?thesis
      using w' adj fl len \<open>length t1 = sz\<close>
      by (intro exI [of _ "?buf\<lparr>dtb_xamot_offset := w'\<rparr>"] exI [of _ t1])
        (simp add: buf space_ok_def abandon_ok_def records.none)
  next
    fix t' assume t': "length t' = sz" "ring_reclaim st ?buf t1 0 needed start =
        Some (?buf\<lparr>dtb_flags := dtb_flags ?buf AND NOT DTRACEBUF_WRAPPED, dtb_offset := 0, dtb_xamot_offset := 0\<rparr>, t')"
    let ?b2 = "?buf\<lparr>dtb_flags := dtb_flags ?buf AND NOT DTRACEBUF_WRAPPED, dtb_offset := 0, dtb_xamot_offset := 0\<rparr>"
    have "\<not> buf_flag DTRACEBUF_WRAPPED ?b2" "buf_flag DTRACEBUF_RING ?b2 = buf_flag DTRACEBUF_RING buf"
      "buf_flag DTRACEBUF_FILL ?b2 = buf_flag DTRACEBUF_FILL buf"
      using fl flag_clear_self [of "dtb_flags ?buf" 8] flag_clear [of 8 1 "dtb_flags ?buf"] flag_clear [of 8 2 "dtb_flags ?buf"]
      by (simp_all add: buf_flag_def)
    then show ?thesis
      using t' adj len \<open>0 + needed \<le> sz\<close>
      by (intro exI [of _ ?b2] exI [of _ t']) (simp add: buf space_ok_def abandon_ok_def records.none)
  qed simp
qed

definition ring_scratch :: "bool \<Rightarrow> nat \<Rightarrow> scratch option" where
  "ring_scratch ms sz = (if ms then Some (Scratch_xamot sz) else None)"

lemma reserve_out_ok:
  assumes space: "space_ok st t sz offs (offs + (needed + offs mod align)) (dtb_xamot_offset buf) (buf_flag DTRACEBUF_WRAPPED buf)"
    and abandon: "P \<longrightarrow> abandon_ok st t sz (dtb_offset buf) offs (offs + (needed + offs mod align)) (dtb_xamot_offset buf) (buf_flag DTRACEBUF_WRAPPED buf)"
    and ecbs: "ecbs_ok st" and al: "align = 4 \<or> align = 8" and fill: "\<not> buf_flag DTRACEBUF_FILL buf"
  shows "\<exists>t'. reserve_out st ms buf t offs needed align =
      Some (int (offs + offs mod align), buf\<lparr>dtb_tomax := Some t'\<rparr>, ring_scratch ms (dtb_size buf)) \<and>
    (offs + offs mod align) mod align = 0 \<and>
    space_ok st t' sz (offs + offs mod align) (offs + offs mod align + needed) (dtb_xamot_offset buf) (buf_flag DTRACEBUF_WRAPPED buf) \<and>
    (P \<longrightarrow> abandon_ok st t' sz (dtb_offset buf) (offs + offs mod align) (offs + offs mod align + needed) (dtb_xamot_offset buf)
      (buf_flag DTRACEBUF_WRAPPED buf))"
proof -
  let ?p = "offs mod align"
  have offs: "offs mod 4 = 0" "offs \<le> length t" "length t mod 8 = 0" "length t = sz" using space by (auto simp: space_ok_def)
  obtain t' where t': "pad_loop align offs t = Some (offs + ?p, t')" "length t' = length t"
    "\<forall>i < length t. t' ! i = (if offs \<le> i \<and> i < offs + ?p then 0 else t ! i)" "(offs + ?p) mod align = 0"
    using pad_loop_ok [OF al offs(1-3)] by (elim exE conjE) (rule that)
  have p: "?p mod 4 = 0" using al offs(1) mod_mod_cancel [of 4 8 offs] by auto
  have lim: "offs + (needed + ?p) = offs + ?p + needed" "offs + ?p \<le> offs + (needed + ?p)" by simp_all
  have "space_ok st t' sz (offs + ?p) (offs + ?p + needed) (dtb_xamot_offset buf) (buf_flag DTRACEBUF_WRAPPED buf)"
    using space_ok_pad [OF space ecbs t'(2) lim(2) p t'(3)] by (simp only: lim(1))
  moreover have "abandon_ok st t' sz (dtb_offset buf) (offs + ?p) (offs + ?p + needed) (dtb_xamot_offset buf) (buf_flag DTRACEBUF_WRAPPED buf)" if P
    using abandon_ok_pad [OF mp [OF abandon that] ecbs t'(2) lim(2) t'(3)] by (simp only: lim(1))
  moreover have "reserve_out st ms buf t offs needed align = Some (int (offs + ?p), buf\<lparr>dtb_tomax := Some t'\<rparr>,
      ring_scratch ms (dtb_size buf))"
    using t'(1) fill by (simp add: reserve_out_def ring_scratch_def)
  ultimately show ?thesis using t'(4) by (intro exI conjI impI)
qed

text \<open>The whole reservation.\<close>

definition reserved :: "dtrace_state \<Rightarrow> dtrace_buffer \<Rightarrow> nat \<Rightarrow> nat \<Rightarrow> bool" where
  "reserved st buf offs needed \<longleftrightarrow> (\<exists>t. dtb_tomax buf = Some t \<and> buf_flag DTRACEBUF_RING buf \<and> \<not> buf_flag DTRACEBUF_FILL buf \<and>
     space_ok st t (dtb_size buf) offs (offs + needed) (dtb_xamot_offset buf) (buf_flag DTRACEBUF_WRAPPED buf) \<and>
     (dtb_offset buf \<le> offs \<or> \<not> buf_flag DTRACEBUF_WRAPPED buf \<or> dtb_xamot_offset buf < dtb_offset buf \<longrightarrow>
      abandon_ok st t (dtb_size buf) (dtb_offset buf) offs (offs + needed) (dtb_xamot_offset buf) (buf_flag DTRACEBUF_WRAPPED buf)))"

lemma ring_reserve_ok:
  assumes inv: "ring_inv st buf" and ecbs: "ecbs_ok st" and active: "\<not> buf_flag DTRACEBUF_INACTIVE buf"
    and al: "align = 4 \<or> align = 8" and room: "needed + dtb_offset buf mod align \<le> dtb_size buf"
  shows "\<exists>offs buf'. dtrace_buffer_reserve st ms buf needed align = Some (int offs, buf', ring_scratch ms (dtb_size buf)) \<and>
    dtb_size buf' = dtb_size buf \<and> offs mod align = 0 \<and> reserved st buf' offs needed"
proof -
  obtain t where t: "dtb_tomax buf = Some t" "buf_flag DTRACEBUF_RING buf" "\<not> buf_flag DTRACEBUF_FILL buf"
    "ring_ok st t (dtb_size buf) (dtb_offset buf) (dtb_xamot_offset buf) (buf_flag DTRACEBUF_WRAPPED buf)"
    using inv by (auto simp: ring_inv_def)
  have "(dtb_flags buf AND 3) AND 1 = dtb_flags buf AND 1" by (simp add: and.assoc)
  then have "buf_flag (DTRACEBUF_RING OR DTRACEBUF_FILL) buf" using t(2) by (auto simp: buf_flag_def)
  then have res: "dtrace_buffer_reserve st ms buf needed align =
      (case ring_adjust st buf t needed align of
         None \<Rightarrow> None | Some (Inl buf) \<Rightarrow> Some (-1, buf, None)
       | Some (Inr (offs, buf, t)) \<Rightarrow> reserve_out st ms buf t offs needed align)"
    using t(1,3) active by (simp only: dtrace_buffer_reserve_def option.case if_False if_True simp_thms)
  show ?thesis
  proof (cases "dtb_offset buf + (needed + dtb_offset buf mod align) \<le> dtb_size buf")
    case True
    from ring_adjust_stay [OF t(4) ecbs al refl refl refl True] obtain b1 t1 where
      b1: "ring_adjust st buf t needed align = Some (Inr (dtb_offset b1, b1, t1))" "dtb_size b1 = dtb_size buf"
        "buf_flag DTRACEBUF_RING b1 = buf_flag DTRACEBUF_RING buf" "buf_flag DTRACEBUF_FILL b1 = buf_flag DTRACEBUF_FILL buf" and
      sp: "space_ok st t1 (dtb_size buf) (dtb_offset b1) (dtb_offset b1 + (needed + dtb_offset b1 mod align)) (dtb_xamot_offset b1) (buf_flag DTRACEBUF_WRAPPED b1)" and
      ab: "abandon_ok st t1 (dtb_size buf) (dtb_offset b1) (dtb_offset b1) (dtb_offset b1 + (needed + dtb_offset b1 mod align)) (dtb_xamot_offset b1) (buf_flag DTRACEBUF_WRAPPED b1)"
      by (elim exE conjE) (rule that)
    have fill: "\<not> buf_flag DTRACEBUF_FILL b1" using b1(4) t(3) by simp
    from reserve_out_ok [OF sp impI [OF ab, of True] ecbs al fill, of ms]
    obtain t2 where o2: "reserve_out st ms b1 t1 (dtb_offset b1) needed align =
        Some (int (dtb_offset b1 + dtb_offset b1 mod align), b1\<lparr>dtb_tomax := Some t2\<rparr>, ring_scratch ms (dtb_size b1))"
      "(dtb_offset b1 + dtb_offset b1 mod align) mod align = 0"
      "space_ok st t2 (dtb_size buf) (dtb_offset b1 + dtb_offset b1 mod align) (dtb_offset b1 + dtb_offset b1 mod align + needed) (dtb_xamot_offset b1) (buf_flag DTRACEBUF_WRAPPED b1)"
      "abandon_ok st t2 (dtb_size buf) (dtb_offset b1) (dtb_offset b1 + dtb_offset b1 mod align) (dtb_offset b1 + dtb_offset b1 mod align + needed) (dtb_xamot_offset b1) (buf_flag DTRACEBUF_WRAPPED b1)"
      unfolding simp_thms by (elim exE conjE) (rule that)
    then show ?thesis unfolding res b1(1) using b1(2,3) fill t(2)
      by (intro exI [of _ "dtb_offset b1 + dtb_offset b1 mod align"] exI [of _ "b1\<lparr>dtb_tomax := Some t2\<rparr>"])
        (simp add: reserved_def)
  next
    case False
    then have False': "dtb_offset buf + (needed + dtb_offset buf mod align) > dtb_size buf" by simp
    from ring_adjust_wrap [OF t(4) ecbs al refl refl refl False' room] obtain b1 t1 where
      b1: "ring_adjust st buf t needed align = Some (Inr (0, b1, t1))" "dtb_size b1 = dtb_size buf"
        "buf_flag DTRACEBUF_RING b1 = buf_flag DTRACEBUF_RING buf" "buf_flag DTRACEBUF_FILL b1 = buf_flag DTRACEBUF_FILL buf" and
      sp: "space_ok st t1 (dtb_size buf) 0 needed (dtb_xamot_offset b1) (buf_flag DTRACEBUF_WRAPPED b1)" and
      ab: "dtb_offset b1 = 0 \<or> \<not> buf_flag DTRACEBUF_WRAPPED b1 \<or> dtb_xamot_offset b1 < dtb_offset b1 \<longrightarrow>
        abandon_ok st t1 (dtb_size buf) (dtb_offset b1) 0 needed (dtb_xamot_offset b1) (buf_flag DTRACEBUF_WRAPPED b1)"
      by (elim exE conjE) (rule that)
    have fill: "\<not> buf_flag DTRACEBUF_FILL b1" using b1(4) t(3) by simp
    have lim: "0 + (needed + 0 mod align) = needed" by simp
    from reserve_out_ok [of st t1 "dtb_size buf" 0 needed align b1, unfolded lim, OF sp ab ecbs al fill, of ms]
    obtain t2 where o2: "reserve_out st ms b1 t1 0 needed align =
        Some (int 0, b1\<lparr>dtb_tomax := Some t2\<rparr>, ring_scratch ms (dtb_size b1))"
      "space_ok st t2 (dtb_size buf) 0 needed (dtb_xamot_offset b1) (buf_flag DTRACEBUF_WRAPPED b1)"
      "dtb_offset b1 = 0 \<or> \<not> buf_flag DTRACEBUF_WRAPPED b1 \<or> dtb_xamot_offset b1 < dtb_offset b1 \<longrightarrow>
        abandon_ok st t2 (dtb_size buf) (dtb_offset b1) 0 needed (dtb_xamot_offset b1) (buf_flag DTRACEBUF_WRAPPED b1)"
      unfolding mod_0 add_0_right add_0_left of_nat_0 by (elim exE conjE) (rule that)
    then show ?thesis unfolding res b1(1) using b1(2,3) fill t(2)
      by (intro exI [of _ 0] exI [of _ "b1\<lparr>dtb_tomax := Some t2\<rparr>"]) (simp add: reserved_def)
  qed
qed

lemma reserved_store:
  assumes "reserved st buf offs needed" "length bs \<le> needed"
  shows "\<exists>t t'. dtb_tomax buf = Some t \<and> store_bytes t offs bs = Some t' \<and> buf_store buf offs bs = Some (buf\<lparr>dtb_tomax := Some t'\<rparr>)"
proof -
  obtain t where t: "dtb_tomax buf = Some t" "length t = dtb_size buf" "offs + needed \<le> dtb_size buf"
    using assms(1) by (auto simp: reserved_def space_ok_def)
  then obtain t' where "store_bytes t offs bs = Some t'" using assms(2) by (simp add: store_bytes_def)
  then show ?thesis using t(1) by (simp add: buf_store_def)
qed

lemma reserved_commit:
  assumes "reserved st buf offs needed" "ecbs_ok st" "length bs \<le> needed" "n \<le> length bs" "records st bs 0 n"
  shows "\<exists>buf'. buf_commit buf offs bs n = Some buf' \<and> ring_inv st buf' \<and> dtb_size buf' = dtb_size buf \<and> dtb_offset buf' = offs + n"
proof -
  obtain t t' where t: "dtb_tomax buf = Some t" "store_bytes t offs bs = Some t'" "buf_store buf offs bs = Some (buf\<lparr>dtb_tomax := Some t'\<rparr>)"
    using reserved_store [OF assms(1,3)] by blast
  have "ring_ok st t' (dtb_size buf) (offs + n) (dtb_xamot_offset buf) (buf_flag DTRACEBUF_WRAPPED buf)"
    using assms t(1) by (intro space_ok_commit [OF _ assms(2) t(2) _ assms(5,4)]) (auto simp: reserved_def)
  then show ?thesis using assms(1) t by (simp add: buf_commit_def ring_inv_def reserved_def)
qed

lemma reserved_abandon:
  assumes "reserved st buf offs needed" "ecbs_ok st" "length bs \<le> needed"
    and "dtb_offset buf \<le> offs \<or> \<not> buf_flag DTRACEBUF_WRAPPED buf \<or> dtb_xamot_offset buf < dtb_offset buf"
  shows "\<exists>buf'. buf_store buf offs bs = Some buf' \<and> ring_inv st buf'"
proof -
  obtain t t' where t: "dtb_tomax buf = Some t" "store_bytes t offs bs = Some t'" "buf_store buf offs bs = Some (buf\<lparr>dtb_tomax := Some t'\<rparr>)"
    using reserved_store [OF assms(1,3)] by blast
  have "ring_ok st t' (dtb_size buf) (dtb_offset buf) (dtb_xamot_offset buf) (buf_flag DTRACEBUF_WRAPPED buf)"
    using assms t(1) by (intro abandon_ok_store [OF _ assms(2) t(2)]) (auto simp: reserved_def)
  then show ?thesis using assms(1) t by (simp add: ring_inv_def reserved_def)
qed

lemma ring_reserve_drop:
  assumes "ring_inv st buf" "\<not> buf_flag DTRACEBUF_INACTIVE buf" "align = 4 \<or> align = 8"
    and "needed + dtb_offset buf mod align > dtb_size buf"
  shows "dtrace_buffer_reserve st ms buf needed align = Some (-1, dtrace_buffer_drop buf, None)"
proof -
  have and_al: "dtb_offset buf AND (align - 1) = dtb_offset buf mod align"
    using assms(3) and_exp_minus_1 [of "dtb_offset buf" 2] and_exp_minus_1 [of "dtb_offset buf" 3] by auto
  obtain t where t: "dtb_tomax buf = Some t" "buf_flag DTRACEBUF_RING buf" "\<not> buf_flag DTRACEBUF_FILL buf"
    using assms(1) by (auto simp: ring_inv_def)
  have "(dtb_flags buf AND 3) AND 1 = dtb_flags buf AND 1" by (simp add: and.assoc)
  then have "buf_flag (DTRACEBUF_RING OR DTRACEBUF_FILL) buf" using t(2) by (auto simp: buf_flag_def)
  moreover have "ring_adjust st buf t needed align = Some (Inl (dtrace_buffer_drop buf))"
    using assms(4) by (simp add: ring_adjust_def Let_def and_al [simplified])
  ultimately show ?thesis using t(1,3) assms(2)
    by (simp only: dtrace_buffer_reserve_def option.case sum.case if_False if_True simp_thms)
qed

section \<open>Histories of a ring buffer\<close>

text \<open>
  A probe that fires reserves space and either completes its record (its bytes are records of the ECBs), or
  gives up after storing part of it, or is dropped. An incomplete record is only in order when the
  reservation did not wrap the buffer, or left the wrapped offset below the offset or the buffer unwrapped.
\<close>

inductive ring_step :: "dtrace_state \<Rightarrow> dtrace_buffer \<Rightarrow> dtrace_buffer \<Rightarrow> bool" for st where
  activate: "ring_step st buf (dtrace_buffer_activate buf)"
| recorded: "dtrace_buffer_reserve st ms buf needed align = Some (int offs, buf1, sc) \<Longrightarrow> align = 4 \<or> align = 8 \<Longrightarrow>
    length bs \<le> needed \<Longrightarrow> n \<le> length bs \<Longrightarrow> records st bs 0 n \<Longrightarrow>
    buf_commit buf1 offs bs n = Some buf2 \<Longrightarrow> ring_step st buf buf2"
| abandon: "dtrace_buffer_reserve st ms buf needed align = Some (int offs, buf1, sc) \<Longrightarrow> align = 4 \<or> align = 8 \<Longrightarrow>
    length bs \<le> needed \<Longrightarrow> buf_store buf1 offs bs = Some buf2 \<Longrightarrow>
    dtb_offset buf1 \<le> offs \<or> \<not> buf_flag DTRACEBUF_WRAPPED buf1 \<or> dtb_xamot_offset buf1 < dtb_offset buf1 \<Longrightarrow>
    ring_step st buf buf2"
| drop: "dtrace_buffer_reserve st ms buf needed align = Some (-1, buf1, sc) \<Longrightarrow> align = 4 \<or> align = 8 \<Longrightarrow> ring_step st buf buf1"

inductive ring_reachable :: "dtrace_state \<Rightarrow> nat \<Rightarrow> dtrace_buffer \<Rightarrow> bool" for st sz where
  fresh: "dtb_tomax buf = Some (replicate sz 0) \<Longrightarrow> dtb_size buf = sz \<Longrightarrow> dtb_offset buf = 0 \<Longrightarrow>
    buf_flag DTRACEBUF_RING buf \<Longrightarrow> \<not> buf_flag DTRACEBUF_FILL buf \<Longrightarrow> \<not> buf_flag DTRACEBUF_WRAPPED buf \<Longrightarrow>
    ring_reachable st sz buf"
| step: "ring_reachable st sz buf \<Longrightarrow> ring_step st buf buf' \<Longrightarrow> ring_reachable st sz buf'"

lemma reserve_inactive:
  "buf_flag DTRACEBUF_INACTIVE buf \<Longrightarrow> dtrace_buffer_reserve st ms buf needed align = Some (-1, buf, None)"
  by (simp add: dtrace_buffer_reserve_def)

lemma ring_inv_drop: "ring_inv st buf \<Longrightarrow> ring_inv st (dtrace_buffer_drop buf)"
  by (simp add: ring_inv_def) (simp add: dtrace_buffer_drop_def)

text \<open>What a reservation in a ring can return.\<close>

lemma ring_reserve_cases:
  assumes "ring_inv st buf" "ecbs_ok st" "align = 4 \<or> align = 8" "dtrace_buffer_reserve st ms buf needed align = Some (r, buf1, sc)"
  shows "r = -1 \<and> ring_inv st buf1 \<and> dtb_size buf1 = dtb_size buf \<or>
    (\<exists>offs. r = int offs \<and> reserved st buf1 offs needed \<and> dtb_size buf1 = dtb_size buf)"
proof -
  consider "buf_flag DTRACEBUF_INACTIVE buf"
    | "\<not> buf_flag DTRACEBUF_INACTIVE buf" "needed + dtb_offset buf mod align > dtb_size buf"
    | "\<not> buf_flag DTRACEBUF_INACTIVE buf" "needed + dtb_offset buf mod align \<le> dtb_size buf" by linarith
  then show ?thesis
  proof cases
    case 1
    then show ?thesis using assms(1,4) reserve_inactive [OF 1] by simp
  next
    case 2
    then show ?thesis
      using assms(4) ring_reserve_drop [OF assms(1) 2(1) assms(3) 2(2)] ring_inv_drop [OF assms(1)]
      by (auto simp: dtrace_buffer_drop_def)
  next
    case 3
    obtain offs b where "dtrace_buffer_reserve st ms buf needed align = Some (int offs, b, ring_scratch ms (dtb_size buf))"
      "dtb_size b = dtb_size buf" "reserved st b offs needed"
      using ring_reserve_ok [OF assms(1,2) 3(1) assms(3) 3(2), of ms] by (elim exE conjE) (rule that)
    then show ?thesis using assms(4) by auto
  qed
qed

lemma ring_step_inv:
  assumes "ring_step st buf buf'" "ring_inv st buf" "ecbs_ok st"
  shows "ring_inv st buf' \<and> dtb_size buf' = dtb_size buf"
  using assms
proof (induction rule: ring_step.induct)
  case (activate buf)
  let ?buf = "buf\<lparr>dtb_flags := dtb_flags buf AND NOT DTRACEBUF_INACTIVE\<rparr>"
  have "buf_flag f ?buf = buf_flag f buf" if "DTRACEBUF_INACTIVE AND f = 0" for f
    using flag_clear [OF that, of "dtb_flags buf"] by (simp add: buf_flag_def)
  then have "buf_flag 1 ?buf = buf_flag 1 buf" "buf_flag 2 ?buf = buf_flag 2 buf" "buf_flag 8 ?buf = buf_flag 8 buf" by simp_all
  then have "ring_inv st ?buf" using activate.prems by (simp add: ring_inv_def)
  then show ?case using activate.prems by (simp add: dtrace_buffer_activate_def)
next
  case (recorded ms buf needed align offs buf1 sc bs n buf2)
  then have "reserved st buf1 offs needed" "dtb_size buf1 = dtb_size buf"
    using ring_reserve_cases [OF recorded.prems(1,2) recorded.hyps(2,1)] by auto
  then show ?case using reserved_commit [OF _ recorded.prems(2) recorded.hyps(3-5)] recorded.hyps(6) by fastforce
next
  case (abandon ms buf needed align offs buf1 sc bs buf2)
  then have "reserved st buf1 offs needed" "dtb_size buf1 = dtb_size buf"
    using ring_reserve_cases [OF abandon.prems(1,2) abandon.hyps(2,1)] by auto
  then show ?case
    using reserved_abandon [OF _ abandon.prems(2) abandon.hyps(3,5)] reserved_store [OF _ abandon.hyps(3)] abandon.hyps(4) by fastforce
next
  case (drop ms buf needed align buf1 sc)
  then show ?case using ring_reserve_cases [OF drop.prems(1,2) drop.hyps(2,1)] by auto
qed

lemma ring_reachable_inv:
  assumes "ring_reachable st sz buf" "ecbs_ok st" "sz mod 8 = 0"
  shows "ring_inv st buf \<and> dtb_size buf = sz"
  using assms
proof (induction rule: ring_reachable.induct)
  case (fresh buf)
  then show ?case by (simp add: ring_inv_def ring_ok_def records.none)
next
  case (step buf buf')
  then show ?case using ring_step_inv by metis
qed

text \<open>A polished ring is a sequence of records from the oldest to the end and from the beginning to the oldest.\<close>

lemma polish_ok:
  assumes "ring_inv st buf" "ecbs_ok st"
  shows "\<exists>buf' t. dtrace_buffer_polish buf = Some buf' \<and> dtb_tomax buf' = Some t \<and>
    (if buf_flag DTRACEBUF_WRAPPED buf
     then records st t (dtb_xamot_offset buf) (dtb_size buf) \<and> records st t 0 (dtb_xamot_offset buf)
     else records st t 0 (dtb_offset buf))"
proof -
  let ?o = "dtb_offset buf" and ?w = "dtb_xamot_offset buf" and ?sz = "dtb_size buf"
  obtain t where t: "dtb_tomax buf = Some t" and ring: "buf_flag DTRACEBUF_RING buf"
    and ok: "ring_ok st t ?sz ?o ?w (buf_flag DTRACEBUF_WRAPPED buf)"
    using assms(1) by (auto simp: ring_inv_def)
  have len: "length t = ?sz" "?sz mod 8 = 0" "?o \<le> ?sz" "?o mod 4 = 0" using ok by (auto simp: ring_ok_def)
  consider "\<not> buf_flag DTRACEBUF_WRAPPED buf" | "buf_flag DTRACEBUF_WRAPPED buf" "?o \<le> ?w" | "buf_flag DTRACEBUF_WRAPPED buf" "?w < ?o"
    by linarith
  then show ?thesis
  proof cases
    case 1
    then show ?thesis using t ring ok by (simp add: dtrace_buffer_polish_def ring_ok_def)
  next
    case 2
    then have rec: "records st t 0 ?o" "records st t ?w ?sz" "?w \<le> ?sz" using ok by (auto simp: ring_ok_def)
    have mod4: "?o mod 4 = ?w mod 4" using records_mod4 [OF rec(2) assms(2)] len(2,4) by presburger
    obtain t' where t': "clear_bytes t ?o ?w = Some t'" using clear_bytes_ok [OF 2(2), of t] rec(3) len(1) by auto
    note c = clear_bytes_SomeD [OF t']
    have "records st t' 0 ?o" by (rule records_frame [OF rec(1) assms(2)]) (use c len in simp_all)
    moreover have "records st t' ?o ?w" using c rec(3) len 2(2) mod4 by (intro records_zero') simp_all
    moreover have "records st t' ?w ?sz" by (rule records_frame [OF rec(2) assms(2)]) (use c len in simp_all)
    moreover have "dtrace_buffer_polish buf = Some (buf\<lparr>dtb_tomax := Some t'\<rparr>)"
    proof (cases "?o < ?w")
      case False
      then have "t' = t" using t' 2(2) by (simp add: clear_bytes_def store_bytes_def split: if_splits)
      then show ?thesis using 2 False t ring by (simp add: dtrace_buffer_polish_def)
    qed (use 2 t t' ring in \<open>simp add: dtrace_buffer_polish_def\<close>)
    ultimately show ?thesis using 2(1) records_trans [of st t' 0 ?o ?w] by simp
  next
    case 3
    then have rec: "records st t ?w ?o" using ok by (simp add: ring_ok_def)
    have mod4: "?w mod 4 = ?o mod 4" "0 mod 4 = ?w mod 4" "?o mod 4 = ?sz mod 4"
      using records_mod4 [OF rec assms(2)] len(2,4) by presburger+
    obtain t1 where t1: "clear_bytes t ?o ?sz = Some t1" using clear_bytes_ok [OF len(3), of t] len(1) by auto
    note c1 = clear_bytes_SomeD [OF t1]
    have "?w \<le> length t1" using c1(1) 3(2) len(1,3) by simp
    then obtain t2 where t2: "clear_bytes t1 0 ?w = Some t2" using clear_bytes_ok [of 0 ?w t1] by auto
    note c2 = clear_bytes_SomeD [OF t2]
    have "records st t2 ?w ?o" by (rule records_frame [OF rec assms(2)]) (use c1 c2 len 3(2) in simp_all)
    moreover have "records st t2 ?o ?sz" using c1 c2 len 3(2) mod4 by (intro records_zero') simp_all
    moreover have "records st t2 0 ?w" using c1 c2 len 3(2) mod4 by (intro records_zero') simp_all
    moreover have "dtrace_buffer_polish buf = Some (buf\<lparr>dtb_tomax := Some t2\<rparr>)"
      using 3 t t1 t2 ring by (simp add: dtrace_buffer_polish_def)
    ultimately show ?thesis using 3(1) records_trans [of st t2 ?w ?o ?sz] by simp
  qed
qed

section \<open>Reservations stay inside the buffer\<close>

definition buf_wf :: "dtrace_state \<Rightarrow> dtrace_buffer \<Rightarrow> bool" where
  "buf_wf st buf \<longleftrightarrow> (\<exists>t. dtb_tomax buf = Some t \<and> length t = dtb_size buf) \<and> dtb_size buf mod 8 = 0 \<and>
     dtb_offset buf \<le> dtb_size buf \<and> dtb_offset buf mod 4 = 0 \<and>
     (buf_flag DTRACEBUF_FILL buf \<longrightarrow> dts_reserve st \<le> dtb_size buf \<and> dtb_size buf < 2 ^ 64) \<and>
     (buf_flag DTRACEBUF_RING buf \<and> \<not> buf_flag DTRACEBUF_FILL buf \<longrightarrow> ring_inv st buf)"

definition in_bounds :: "dtrace_state \<Rightarrow> dtrace_buffer \<Rightarrow> nat \<Rightarrow> nat \<Rightarrow> nat \<Rightarrow> scratch option \<Rightarrow> bool" where
  "in_bounds st buf needed align offs sc \<longleftrightarrow> offs mod align = 0 \<and> offs + needed \<le> dtb_size buf \<and>
     (buf_flag DTRACEBUF_FILL buf \<longrightarrow> offs + needed \<le> dtb_size buf - dts_reserve st) \<and>
     (case sc of Some (Scratch_tomax s n) \<Rightarrow> s = offs + needed \<and> s + n = dtb_size buf
               | Some (Scratch_xamot n) \<Rightarrow> n = dtb_size buf | None \<Rightarrow> True)"

lemma buf_flag_or: "buf_flag (DTRACEBUF_RING OR DTRACEBUF_FILL) buf \<longleftrightarrow> buf_flag DTRACEBUF_RING buf \<or> buf_flag DTRACEBUF_FILL buf"
proof -
  have "(f AND 3 \<noteq> 0) = (f AND 1 \<noteq> 0 \<or> f AND 2 \<noteq> 0)" for f :: u32
  proof -
    have "f AND 3 = (f AND 1) OR (f AND 2)" using bit.conj_disj_distrib [of f 1 2] by simp
    then show ?thesis by (simp add: or_eq_0_iff)
  qed
  then show ?thesis by (simp add: buf_flag_def)
qed

lemma sub_wrap:
  fixes a r :: nat
  assumes "r \<le> a" "a < 2 ^ w"
  shows "(a + 2 ^ w - r) mod 2 ^ w = a - r"
proof -
  have eq: "a + 2 ^ w - r = (a - r) + 2 ^ w" using assms(1) by linarith
  have "(a - r) mod 2 ^ w = a - r" using assms(2) by (intro mod_less) linarith
  then show ?thesis unfolding eq mod_add_self2 .
qed

text \<open>The result of a reservation under the switch and fill policies, with the padded bytes \<open>t'\<close>.\<close>

lemma reserve_linear_eq:
  assumes wf: "buf_wf st buf" and active: "\<not> buf_flag DTRACEBUF_INACTIVE buf" and al: "align = 4 \<or> align = 8"
    and linear: "\<not> buf_flag DTRACEBUF_RING buf \<or> buf_flag DTRACEBUF_FILL buf"
  obtains t t' where "dtb_tomax buf = Some t" "length t = dtb_size buf" "length t' = length t"
    "\<And>i. i < length t \<Longrightarrow> t' ! i = (if dtb_offset buf \<le> i \<and> i < dtb_offset buf + dtb_offset buf mod align then 0 else t ! i)"
    "(dtb_offset buf + dtb_offset buf mod align) mod align = 0"
    "dtrace_buffer_reserve st ms buf needed align =
      (let offs = dtb_offset buf + dtb_offset buf mod align; buf' = buf\<lparr>dtb_tomax := Some t'\<rparr> in
       if buf_flag DTRACEBUF_FILL buf then
         (if \<not> dts_cooldown st \<and> buf_flag DTRACEBUF_FULL buf then Some (-1, buf, None)
          else if offs + needed > dtb_size buf - dts_reserve st
          then Some (-1, buf'\<lparr>dtb_flags := dtb_flags buf OR DTRACEBUF_FULL\<rparr>, None)
          else Some (int offs, buf', if ms then Some (Scratch_xamot (dtb_size buf)) else None))
       else if offs + needed > dtb_size buf then Some (-1, dtrace_buffer_drop buf', None)
       else Some (int offs, buf', if ms then Some (Scratch_tomax (offs + needed) (dtb_size buf - (offs + needed))) else None))"
proof -
  let ?o = "dtb_offset buf + dtb_offset buf mod align"
  obtain t where t: "dtb_tomax buf = Some t" "length t = dtb_size buf" using wf unfolding buf_wf_def by blast
  have off: "dtb_offset buf mod 4 = 0" "dtb_offset buf \<le> length t" "length t mod 8 = 0"
    using wf t(2) unfolding buf_wf_def by simp_all
  obtain t' where t': "pad_loop align (dtb_offset buf) t = Some (?o, t')" "length t' = length t"
    "\<forall>i < length t. t' ! i = (if dtb_offset buf \<le> i \<and> i < ?o then 0 else t ! i)" "?o mod align = 0"
    using pad_loop_ok [OF al off] by (elim exE conjE) (rule that)
  note that = that [OF t t'(2) t'(3) [rule_format] t'(4)]
  show ?thesis
  proof (cases "buf_flag DTRACEBUF_FILL buf")
    case True
    have fill: "dts_reserve st \<le> dtb_size buf" "dtb_size buf < 2 ^ 64" using wf True unfolding buf_wf_def by blast+
    have out: "reserve_out st ms buf t (dtb_offset buf) needed align =
        (if ?o + needed > dtb_size buf - dts_reserve st
         then Some (-1, buf\<lparr>dtb_tomax := Some t', dtb_flags := dtb_flags buf OR DTRACEBUF_FULL\<rparr>, None)
         else Some (int ?o, buf\<lparr>dtb_tomax := Some t'\<rparr>, if ms then Some (Scratch_xamot (dtb_size buf)) else None))"
      unfolding reserve_out_def t'(1) using sub_wrap [OF fill] True by simp
    have res: "dtrace_buffer_reserve st ms buf needed align =
        (if \<not> dts_cooldown st \<and> buf_flag DTRACEBUF_FULL buf then Some (-1, buf, None)
         else reserve_out st ms buf t (dtb_offset buf) needed align)"
      using True active t(1) by (simp only: dtrace_buffer_reserve_def buf_flag_or option.case if_False if_True simp_thms)
    show ?thesis by (rule that) (simp_all add: res out Let_def True)
  next
    case False
    then have "\<not> buf_flag DTRACEBUF_RING buf" using linear by simp
    then have "dtrace_buffer_reserve st ms buf needed align =
        (if ?o + needed > dtb_size buf then Some (-1, dtrace_buffer_drop (buf\<lparr>dtb_tomax := Some t'\<rparr>), None)
         else Some (int ?o, buf\<lparr>dtb_tomax := Some t'\<rparr>,
           if ms then Some (Scratch_tomax (?o + needed) (dtb_size buf - (?o + needed))) else None))"
      unfolding dtrace_buffer_reserve_def buf_flag_or using False active t(1) t'(1) by (simp add: Let_def)
    then show ?thesis by (intro that) (simp_all only: Let_def False if_False)
  qed
qed

lemma reserve_linear:
  assumes wf: "buf_wf st buf" and active: "\<not> buf_flag DTRACEBUF_INACTIVE buf" and al: "align = 4 \<or> align = 8"
    and linear: "\<not> buf_flag DTRACEBUF_RING buf \<or> buf_flag DTRACEBUF_FILL buf"
  shows "\<exists>r buf' sc. dtrace_buffer_reserve st ms buf needed align = Some (r, buf', sc) \<and>
    (r = -1 \<or> (\<exists>offs. r = int offs \<and> dtb_size buf' = dtb_size buf \<and> in_bounds st buf needed align offs sc))"
proof -
  let ?offs = "dtb_offset buf + dtb_offset buf mod align"
  have "?offs + needed \<le> dtb_size buf" if "?offs + needed \<le> dtb_size buf - dts_reserve st" using that by linarith
  then show ?thesis
    by (rule_tac reserve_linear_eq [OF assms, of ms needed]) (auto simp: Let_def in_bounds_def intro!: exI [of _ ?offs])
qed


lemma reserve_in_bounds:
  assumes wf: "buf_wf st buf" and ecbs: "ecbs_ok st" and al: "align = 4 \<or> align = 8"
  shows "\<exists>r buf' sc. dtrace_buffer_reserve st ms buf needed align = Some (r, buf', sc) \<and>
    (r = -1 \<or> (\<exists>offs. r = int offs \<and> dtb_size buf' = dtb_size buf \<and> in_bounds st buf needed align offs sc))"
proof -
  consider "buf_flag DTRACEBUF_INACTIVE buf"
    | "\<not> buf_flag DTRACEBUF_INACTIVE buf" "\<not> buf_flag DTRACEBUF_RING buf \<or> buf_flag DTRACEBUF_FILL buf"
    | "\<not> buf_flag DTRACEBUF_INACTIVE buf" "ring_inv st buf" "needed + dtb_offset buf mod align > dtb_size buf"
    | "\<not> buf_flag DTRACEBUF_INACTIVE buf" "ring_inv st buf" "needed + dtb_offset buf mod align \<le> dtb_size buf"
    using wf unfolding buf_wf_def by (metis linorder_not_less)
  then show ?thesis
  proof cases
    case 1
    then show ?thesis using reserve_inactive by simp
  next
    case 2
    then show ?thesis by (intro reserve_linear [OF wf _ al])
  next
    case 3
    then show ?thesis using ring_reserve_drop [OF 3(2,1) al 3(3)] by simp
  next
    case 4
    obtain offs b where b: "dtrace_buffer_reserve st ms buf needed align = Some (int offs, b, ring_scratch ms (dtb_size buf))"
      "dtb_size b = dtb_size buf" "offs mod align = 0" "reserved st b offs needed"
      using ring_reserve_ok [OF 4(2) ecbs 4(1) al 4(3), of ms] by (elim exE conjE) (rule that)
    have "offs + needed \<le> dtb_size b" using b(4) by (auto simp: reserved_def space_ok_def)
    moreover have "\<not> buf_flag DTRACEBUF_FILL buf" using 4(2) by (simp add: ring_inv_def)
    ultimately have "in_bounds st buf needed align offs (ring_scratch ms (dtb_size buf))"
      using b(2,3) by (simp add: in_bounds_def ring_scratch_def)
    then show ?thesis using b(1,2)
      by (intro exI [of _ "int offs"] exI [of _ b] exI [of _ "ring_scratch ms (dtb_size buf)"] conjI disjI2 exI [of _ offs]) simp_all
  qed
qed

section \<open>Correctness of the buffers\<close>

text \<open>Two ECBs with records of 8 and 12 bytes, and a ring of 24 bytes.\<close>

definition demo_state :: dtrace_state where
  "demo_state = \<lparr>dts_ecbs = [Some 8, Some 12], dts_cooldown = False, dts_reserve = 0\<rparr>"

definition demo_ring :: dtrace_buffer where
  "demo_ring = \<lparr>dtb_offset = 0, dtb_size = 24, dtb_flags = DTRACEBUF_RING, dtb_drops = 0, dtb_tomax = Some (replicate 24 0),
     dtb_xamot = Some (replicate 24 0), dtb_xamot_flags = 0, dtb_xamot_drops = 0, dtb_xamot_offset = 0,
     dtb_errors = 0, dtb_xamot_errors = 0\<rparr>"

lemma demo_ring_reachable: "ring_reachable demo_state 24 demo_ring" "ecbs_ok demo_state"
  by (rule ring_reachable.fresh) (auto simp: demo_ring_def demo_state_def buf_flag_def ecbs_ok_def)

lemma zeros:
  "replicate 24 (0 :: u8) = [0, 0, 0, 0, 0, 0, 0, 0, 0, 0, 0, 0, 0, 0, 0, 0, 0, 0, 0, 0, 0, 0, 0, 0]"
  "replicate 16 (0 :: u8) = [0, 0, 0, 0, 0, 0, 0, 0, 0, 0, 0, 0, 0, 0, 0, 0]"
  "replicate 8 (0 :: u8) = [0, 0, 0, 0, 0, 0, 0, 0]"
  by (simp_all add: numeral_eq_Suc)

definition demo_bytes :: "u8 list" where
  "demo_bytes = [1, 0, 0, 0, 9, 9, 9, 9, 1, 0, 0, 0, 7, 7, 7, 7, 0, 0, 0, 0, 0, 0, 0, 0]"

definition demo_two :: dtrace_buffer where
  "demo_two = demo_ring\<lparr>dtb_offset := 16, dtb_tomax := Some demo_bytes\<rparr>"

lemmas ring_eval = dtrace_buffer_reserve_def ring_adjust_def ring_reclaim_def reserve_out_def woffs_loop.simps pad_loop.simps
  rec_size_def load32_def store_bytes_def clear_bytes_def buf_store_def buf_commit_def buf_flag_def dtrace_buffer_polish_def
  demo_state_def demo_ring_def zeros

lemma demo_two_reachable: "ring_reachable demo_state 24 demo_two"
proof -
  let ?one = "demo_ring\<lparr>dtb_offset := 8, dtb_tomax := Some ([1, 0, 0, 0, 9, 9, 9, 9] @ replicate 16 0)\<rparr>"
  have rec: "records demo_state [1, 0, 0, 0, x, x, x, x] 0 8" for x
    by (rule records.more [of _ _ _ 8]) (simp_all add: ring_eval records.none)
  have r1: "dtrace_buffer_reserve demo_state False demo_ring 8 4 = Some (int 0, demo_ring, None)"
    by (simp add: ring_eval)
  have c1: "buf_commit demo_ring 0 [1, 0, 0, 0, 9, 9, 9, 9] 8 = Some ?one"
    by (simp add: ring_eval)
  have "ring_step demo_state demo_ring ?one"
    by (rule ring_step.recorded [OF r1 _ _ _ _ c1]) (simp_all add: rec)
  then have one: "ring_reachable demo_state 24 ?one" using demo_ring_reachable(1) by (rule ring_reachable.step [rotated])
  have r2: "dtrace_buffer_reserve demo_state False ?one 8 4 = Some (int 8, ?one, None)"
    by (simp add: ring_eval)
  have c2: "buf_commit ?one 8 [1, 0, 0, 0, 7, 7, 7, 7] 8 = Some demo_two"
    by (simp add: ring_eval demo_two_def demo_bytes_def)
  have "ring_step demo_state ?one demo_two"
    by (rule ring_step.recorded [OF r2 _ _ _ _ c2]) (simp_all add: rec)
  then show ?thesis using one by (rule ring_reachable.step [rotated])
qed

text \<open>A third record, of 12 bytes, that wraps the ring.\<close>

definition demo_wrapped :: dtrace_buffer where
  "demo_wrapped = demo_two\<lparr>dtb_flags := 9, dtb_xamot_offset := 16, dtb_offset := 12,
     dtb_tomax := Some ([2, 0, 0, 0, 5, 5, 5, 5, 5, 5, 5, 5] @ drop 12 demo_bytes)\<rparr>"

lemma demo_wrapped_reachable: "ring_reachable demo_state 24 demo_wrapped"
proof -
  let ?bs = "[2, 0, 0, 0, 5, 5, 5, 5, 5, 5, 5, 5] :: u8 list"
  let ?buf1 = "demo_two\<lparr>dtb_flags := 9, dtb_xamot_offset := 16\<rparr>"
  have rec: "records demo_state ?bs 0 12"
    by (rule records.more [of _ _ _ 12]) (simp_all add: ring_eval records.none)
  have r: "dtrace_buffer_reserve demo_state False demo_two 12 4 = Some (int 0, ?buf1, None)"
    by (simp add: ring_eval demo_two_def demo_bytes_def)
  have c: "buf_commit ?buf1 0 ?bs 12 = Some demo_wrapped"
    by (simp add: ring_eval demo_wrapped_def demo_two_def demo_bytes_def)
  have "ring_step demo_state demo_two demo_wrapped"
    by (rule ring_step.recorded [OF r _ _ _ _ c]) (simp_all add: rec)
  then show ?thesis using demo_two_reachable by (rule ring_reachable.step [rotated])
qed

inductive_cases recordsE: "records st t a b"

text \<open>
  \<^bold>\<open>C6.\<close> A reservation in a well-formed buffer fails no assertion, writes nothing outside the buffer and
  either refuses or returns an aligned offset with room for the whole record; under the fill policy the
  record also stays clear of the space kept for the END probe, and the scratch space is what is left.
\<close>

theorem dtrace_buffer_reserve_bounds:
  assumes "buf_wf st buf" "ecbs_ok st" "align = 4 \<or> align = 8"
  shows "\<exists>r buf' sc. dtrace_buffer_reserve st ms buf needed align = Some (r, buf', sc) \<and>
    (r = -1 \<or> (\<exists>offs. r = int offs \<and> dtb_size buf' = dtb_size buf \<and> in_bounds st buf needed align offs sc))"
  using assms by (rule reserve_in_bounds)

theorem dtrace_buffer_reserve_bounds_witness:
  "\<exists>r buf' sc. dtrace_buffer_reserve demo_state True demo_ring 12 8 = Some (r, buf', sc) \<and>
    (r = -1 \<or> (\<exists>offs. r = int offs \<and> dtb_size buf' = 24 \<and> in_bounds demo_state demo_ring 12 8 offs sc))"
proof -
  have inv: "ring_inv demo_state demo_ring" using ring_reachable_inv [OF demo_ring_reachable] by simp
  then have wf: "buf_wf demo_state demo_ring" by (simp add: buf_wf_def) (simp add: demo_ring_def buf_flag_def)
  show ?thesis
    using dtrace_buffer_reserve_bounds [OF wf demo_ring_reachable(2), of 8 True 12] by (simp add: demo_ring_def)
qed

text \<open>
  \<^bold>\<open>C5.\<close> However often a ring buffer has wrapped, after polishing it a consumer that reads from the oldest
  record to the end and on from the beginning sees whole records only; if it has not wrapped, the bytes up
  to its offset are whole records. This holds for every history of complete records, drops and abandoned
  records whose reservation left the wrapped offset in order.
\<close>

theorem ring_buffer_readable:
  assumes "ring_reachable st sz buf" "ecbs_ok st" "sz mod 8 = 0"
  shows "\<exists>buf' t. dtrace_buffer_polish buf = Some buf' \<and> dtb_tomax buf' = Some t \<and>
    (if buf_flag DTRACEBUF_WRAPPED buf
     then records st t (dtb_xamot_offset buf) sz \<and> records st t 0 (dtb_xamot_offset buf)
     else records st t 0 (dtb_offset buf))"
  using ring_reachable_inv [OF assms] polish_ok [OF _ assms(2)] by metis

theorem ring_buffer_readable_witness:
  "\<exists>buf' t. dtrace_buffer_polish demo_wrapped = Some buf' \<and> dtb_tomax buf' = Some t \<and>
    buf_flag DTRACEBUF_WRAPPED demo_wrapped \<and> records demo_state t 16 24 \<and> records demo_state t 0 16"
  using ring_buffer_readable [OF demo_wrapped_reachable demo_ring_reachable(2)]
  by (simp add: demo_wrapped_def demo_two_def demo_ring_def buf_flag_def)

text \<open>
  \<^bold>\<open>C14.\<close> A record that wraps the ring and is then abandoned can destroy the newest records: in a ring of 24
  bytes with two records of 8 bytes, a probe with records of 12 bytes reserves the beginning of the buffer
  and stores its identifier before its predicate fails. The offset and the wrapped offset are then both 16,
  polishing changes nothing, and the bytes up to 16 are no sequence of records any more.
\<close>

theorem ring_abandon_breaks:
  "\<exists>buf1 buf2 t. ring_reachable demo_state 24 demo_two \<and>
    dtrace_buffer_reserve demo_state False demo_two 12 4 = Some (0, buf1, None) \<and>
    buf_store buf1 0 [2, 0, 0, 0] = Some buf2 \<and> dtrace_buffer_polish buf2 = Some buf2 \<and>
    buf_flag DTRACEBUF_WRAPPED buf2 \<and> dtb_offset buf2 = 16 \<and> dtb_xamot_offset buf2 = 16 \<and>
    dtb_tomax buf2 = Some t \<and> \<not> records demo_state t 0 16"
proof -
  let ?buf1 = "demo_two\<lparr>dtb_flags := 9, dtb_xamot_offset := 16\<rparr>"
  let ?t = "[2, 0, 0, 0] @ drop 4 demo_bytes"
  let ?buf2 = "?buf1\<lparr>dtb_tomax := Some ?t\<rparr>"
  have "dtrace_buffer_reserve demo_state False demo_two 12 4 = Some (0, ?buf1, None)"
    by (simp add: ring_eval demo_two_def demo_bytes_def)
  moreover have "buf_store ?buf1 0 [2, 0, 0, 0] = Some ?buf2" "dtrace_buffer_polish ?buf2 = Some ?buf2"
    "buf_flag DTRACEBUF_WRAPPED ?buf2" "dtb_offset ?buf2 = 16" "dtb_xamot_offset ?buf2 = 16"
    by (simp_all add: ring_eval demo_two_def demo_bytes_def)
  moreover have "\<not> records demo_state ?t 0 16"
  proof
    have sz: "rec_size demo_state ?t 0 = Some 12" "rec_size demo_state ?t 12 = None"
      by (simp_all add: ring_eval demo_bytes_def)
    assume "records demo_state ?t 0 16"
    then have "records demo_state ?t 12 16" by (rule recordsE) (use sz(1) in simp_all)
    then show False by (rule recordsE) (use sz(2) in simp_all)
  qed
  ultimately show ?thesis using demo_two_reachable
    by (intro exI [of _ ?buf1] exI [of _ ?buf2] exI [of _ ?t]) simp
qed

end
