(* ===== verification/Spec2Isabelle.thy ===== *)
theory Spec2Isabelle
  imports DT_Aggregators LDT_Stddev DT_Safety DT_Registry DT_Ring
begin

text \<open>
  A model of DTrace for Linux and its correctness: the parts of the kernel driver that decide whether it is
  safe to run a D program in probe context, the registry of probes, the trace buffers, and the arithmetic
  behind \<^verbatim>\<open>stddev()\<close>, which spans the driver and the consumer library. File names are relative to
  \<^verbatim>\<open>src/\<close>.

  \<^bold>\<open>The program.\<close> A consumer compiles D programs to objects of the D Intermediate Format (DIF) and hands them
  to the driver, which validates them (\<^verbatim>\<open>dtrace_difo_validate\<close>). Providers register with the driver and create
  probes; a description with glob patterns is matched against the probes through three hashes. When an
  enabled probe fires, the driver emulates the object (\<^verbatim>\<open>dtrace_dif_emulate\<close>) with interrupts off, stores
  records in the buffer of the CPU (\<^verbatim>\<open>dtrace_buffer_reserve\<close>) or aggregates a value, and the consumer reads the
  buffers and prints the aggregations.

  \<^bold>\<open>Theories.\<close>
  \<^item> \<open>DT_Prelude\<close>: machine integers, shifts, signed division, shared lemmas on words.
  \<^item> \<open>DT_Dif\<close> (\<^verbatim>\<open>uts/common/sys/dtrace.h\<close>): opcodes, field macros, instruction constructors, and the
    structures for types, variables and objects. Encoding and decoding are inverse.
  \<^item> \<open>DT_Memory\<close> (\<^verbatim>\<open>driver/dtrace.c\<close>, \<^verbatim>\<open>uts/common/sys/dtrace_impl.h\<close>, \<^verbatim>\<open>include/sys/cpuvar_defs.h\<close>): the machine
    that probe context runs on (bytes, CPU flags, \<^verbatim>\<open>dtrace_mstate_t\<close>, \<^verbatim>\<open>dtrace_vstate_t\<close>) as the record \<open>mach\<close>,
    the loads of \<^verbatim>\<open>DTRACE_LOADFUNC\<close>, the access checks \<^verbatim>\<open>dtrace_canload\<close> and \<^verbatim>\<open>dtrace_canstore\<close> and their
    relatives, and the string and copy routines. The range test is exact also when sums wrap around, a permitted
    store misses the metadata of dynamic variables, and the routines compute what the C library would.
  \<^item> \<open>DT_Emulate\<close>: \<^verbatim>\<open>dtrace_dif_emulate\<close>. \<open>emu\<close> holds its local variables, there is one \<open>exec_\<close> function per
    group of opcodes, \<open>dif_exec\<close> is the \<^verbatim>\<open>switch\<close>, \<open>dif_step\<close> an iteration, \<open>dif_loop\<close> the loop with fuel.
    The branches after a comparison are right exactly when the difference of the operands fits.
  \<^item> \<open>DT_Validate\<close>: \<^verbatim>\<open>dtrace_difo_validate\<close> with one \<open>check_\<close> function per group of opcodes,
    \<^verbatim>\<open>dtrace_difo_validate_helper\<close> and \<^verbatim>\<open>dtrace_difo_cacheable\<close>. What it does to loads, and that it is idempotent.
  \<^item> \<open>DT_Frame\<close>, \<open>DT_Safety\<close>: the emulator on validated objects. It terminates, keeps its registers and its
    program counter in bounds, attributes a fault to the instruction that raised it, and has undefined
    behaviour in exactly the states that \<open>instr_undef\<close> describes.
  \<^item> \<open>DT_Match\<close>: the glob matcher with its recursion limit and the other match functions; they decide the
    language of a pattern that is defined independently of the code.
  \<^item> \<open>DT_Hash\<close>: the probe hashes with their doubly linked chains. The locale \<open>probe_index\<close> is what their clients
    rely on, and \<open>hash_inv\<close> the invariant that interprets it.
  \<^item> \<open>DT_Probe\<close>, \<open>DT_Registry\<close>: the record \<open>dtrace_core\<close> with the probe table, the hashes and the provider
    chain, registration, creation, condensing, unregistration, lookup and matching. \<open>core_reachable\<close> are
    the states that attaching and any sequence of operations reach, with failed allocations counted. The table
    and the hashes agree in all of them, and a search delivers exactly the probes that match.
  \<^item> \<open>DT_Buffer\<close>, \<open>DT_Ring\<close>: the buffers of a CPU. A reservation stays inside the buffer under each of the three
    policies, and a ring buffer is readable as whole records however often it has wrapped, except after one kind
    of abandoned record, which is shown to break it.
  \<^item> \<open>DT_Arith128\<close>, \<open>DT_Aggregators\<close>: two-limb arithmetic and the aggregating functions of the driver. The
    locales \<open>aggregating_function\<close> and \<open>aggregation_measure\<close> give what a sequence of samples accumulates
    from what one sample does; they are interpreted for count, sum, min, max, avg and stddev.
  \<^item> \<open>LDT_Stddev\<close> (\<^verbatim>\<open>libdtrace/dt_consume.c\<close>): 128-bit division and square root of the consumer, and \<^verbatim>\<open>dt_stddev\<close>.
    This theory joins it with the driver's side.

  \<^bold>\<open>Conventions.\<close> \<open>None\<close> stands for what C leaves undefined, for a trap, and for a failed \<^verbatim>\<open>ASSERT\<close>. On Linux the
  driver's \<^verbatim>\<open>ASSERT\<close> prints a message and goes on, so after a failed one the code would run in a state it
  does not expect; the model does not follow it there, and the theorems show where no assertion fails. Words
  keep the width of the source where they can wrap. Sizes and offsets of buffers and the counters of the
  hashes are natural numbers or integers, for the reasons given in their theories. A C string is the list of
  its bytes without the NUL, a nullable pointer an option, memory from the allocator an argument. Interrupt
  masking and locks make the operations atomic and appear in no other way.

  \<^bold>\<open>Fuel and loops.\<close> \<open>dif_loop\<close> takes fuel and says \<open>Timeout\<close> without it; the number of instructions of a
  validated object is enough. The glob matcher recurses on its real depth limit. The loops of the
  consumer's division are \<open>while\<close> combinators whose termination is proved. The loops of \<^verbatim>\<open>dtrace_strlen\<close> and of the
  padding of a reservation are partial functions that are shown to return. The other loops are structural
  or have a measure.

  \<^bold>\<open>Parameters.\<close> The emulator takes a record \<open>host\<close>: user memory, page faults and their resumption, and the
  routines for built-in variables, subroutines and dynamic variables, each of which may be undefined. They
  are used under the named hypothesis \<open>host_ok\<close>, which \<open>host0\<close> satisfies.

  \<^bold>\<open>Not modelled.\<close> The body of \<^verbatim>\<open>dtrace_probe\<close> apart from its stores into a buffer, the built-in variables,
  subroutines and dynamic variables behind the host, speculations, aggregation buffers, ECBs, enablings,
  DOF, helpers apart from their validation, and the \<^verbatim>\<open>ioctl\<close> interface; what a registration triggers in
  other providers and in retained enablings; the instrumentation providers, the D compiler, the rest of the
  consumer library and the commands. These are concurrent, depend on the running kernel, or only move data
  between the parts above.
\<close>

section \<open>Standard deviation, from the probe to the report\<close>

lemma square_sum_nonneg:
  fixes x :: int
  shows "0 \<le> int (length ys) * x\<^sup>2 - 2 * x * sum_list ys + (\<Sum>y\<leftarrow>ys. y\<^sup>2)"
proof (induction ys)
  case (Cons y ys)
  have "0 \<le> (x - y)\<^sup>2" by simp
  with Cons show ?case by (simp add: algebra_simps power2_eq_square)
qed simp

lemma sum_list_square_le:
  fixes ys :: "int list"
  shows "(sum_list ys)\<^sup>2 \<le> int (length ys) * (\<Sum>y\<leftarrow>ys. y\<^sup>2)"
proof (induction ys)
  case (Cons y ys)
  with square_sum_nonneg [of ys y] show ?case by (simp add: algebra_simps power2_eq_square)
qed simp

lemma mean_square_le:
  fixes m N n Q :: nat and T :: int
  assumes "0 < n" "0 < N" "T\<^sup>2 \<le> int n * int Q"
  shows "(nat \<bar>T\<bar> div N div n)\<^sup>2 \<le> Q div N div n"
proof -
  let ?m = "nat \<bar>T\<bar> div N div n"
  have "?m * (N * n) \<le> nat \<bar>T\<bar>"
    by (metis div_mult2_eq div_times_less_eq_dividend)
  then have "(?m * (N * n))\<^sup>2 \<le> (nat \<bar>T\<bar>)\<^sup>2" by (rule power_mono) simp
  also have "\<dots> \<le> n * Q"
    using assms(3) by (simp flip: of_nat_le_iff [where 'a = int])
  finally have "n * (?m\<^sup>2 * (N * n) * N) \<le> n * Q"
    by (simp add: power2_eq_square algebra_simps)
  then have "?m\<^sup>2 * (N * n) * N \<le> Q" using assms(1) by simp
  moreover have "?m\<^sup>2 * (N * n) \<le> ?m\<^sup>2 * (N * n) * N" using assms(2) by simp
  ultimately have "?m\<^sup>2 * (N * n) \<le> Q" by linarith
  then show ?thesis
    using assms by (simp add: div_mult2_eq [symmetric] less_eq_div_iff_mult_less_eq)
qed

lemma sum_list_word: "sum_list xs = (word_of_int (\<Sum>x\<leftarrow>xs. sint x) :: u64)"
  by (induction xs) (simp_all add: word_of_int_sint)

text \<open>
  \<^bold>\<open>C26.\<close> For any non-empty sequence of samples whose sum fits 64 bits and whose sum of squares
  fits 128 bits, the value the kernel accumulates with \<^verbatim>\<open>stddev()\<close> makes the consumer's
  \<^verbatim>\<open>dt_stddev\<close> return, without a failed assertion or a trapping division, the integer square root of
  the average of the squares minus the square of the average, both taken after dividing by the
  normalization factor once.
\<close>

theorem stddev_end_to_end:
  assumes "xs \<noteq> []" "length xs < 2 ^ 63" "0 < N" "N < 2 ^ 63"
    and "- (2 ^ 63) \<le> (\<Sum>x\<leftarrow>xs. sint x)" "(\<Sum>x\<leftarrow>xs. sint x) < 2 ^ 63"
    and "(\<Sum>x\<leftarrow>xs. (sint x)\<^sup>2) < 2 ^ 128"
  defines "avg_of_squares \<equiv> nat (\<Sum>x\<leftarrow>xs. (sint x)\<^sup>2) div N div length xs"
    and "avg \<equiv> nat \<bar>\<Sum>x\<leftarrow>xs. sint x\<bar> div N div length xs"
  shows "\<exists>d r. agg_run dtrace_aggregate_stddev [0, 0, 0, 0] xs = Some d \<and>
    dt_stddev (d ! 0, d ! 1, d ! 2, d ! 3) (of_nat N) = Some r \<and>
    (unat r)\<^sup>2 \<le> avg_of_squares - avg\<^sup>2 \<and> avg_of_squares - avg\<^sup>2 < (unat r + 1)\<^sup>2"
proof -
  let ?Q = "\<Sum>x\<leftarrow>xs. (sint x)\<^sup>2" and ?T = "\<Sum>x\<leftarrow>xs. sint x"
  have Q: "0 \<le> ?Q" by (induction xs) auto
  obtain d where d: "agg_run dtrace_aggregate_stddev [0, 0, 0, 0] xs = Some d"
      "d ! 0 = of_nat (length xs)" "d ! 1 = sum_list xs" "val128 (d ! 2, d ! 3) = nat ?Q mod 2 ^ 128"
    using stddev_run by blast
  have val: "val128 (d ! 2, d ! 3) = nat ?Q"
    unfolding d(4) using assms(7) Q by (intro mod_less) simp
  have tot: "sint (d ! 1) = ?T"
    unfolding d(3) sum_list_word using assms(5,6) by (rule sint_word_of_int64)
  have "?T\<^sup>2 \<le> int (length xs) * int (nat ?Q)"
    using sum_list_square_le [of "map sint xs"] Q by (simp add: comp_def)
  then have "(nat \<bar>sint (d ! 1)\<bar> div N div length xs)\<^sup>2 \<le> val128 (d ! 2, d ! 3) div N div length xs"
    unfolding val tot using assms(1,3) by (intro mean_square_le) auto
  from dt_stddev_total [OF _ assms(2,3,4) this] assms(1) d(1)
  show ?thesis unfolding avg_of_squares_def avg_def d(2) [symmetric] val tot fst_conv snd_conv by auto
qed

theorem stddev_end_to_end_witness:
  "\<exists>d r. agg_run dtrace_aggregate_stddev [0, 0, 0, 0] [2, 4, - 6] = Some d \<and>
     dt_stddev (d ! 0, d ! 1, d ! 2, d ! 3) (of_nat 1) = Some r \<and>
     (unat r)\<^sup>2 \<le> 18 \<and> 18 < (unat r + 1)\<^sup>2"
  using stddev_end_to_end [of "[2, 4, - 6]" 1] by simp

end
